theory Spec2Isabelle
  imports Complex_Main
begin

section \<open>Data model (types.ts)\<close>

text \<open>
  Text is modelled as \<open>string\<close>: the model covers the JavaScript strings whose code
  units are below 256. A string value produced by \<open>JSON.parse\<close> can hold any 16-bit code
  unit (through a \<open>\uXXXX\<close> escape), so JSON string values are lists of code units.
\<close>

datatype ParseStatus = IDLE | RECORDING | PROCESSING | SUCCESS | ERROR

text \<open>
  A value as \<open>JSON.parse\<close> returns it. A number keeps the numeral as the text wrote it
  (its conversion to a binary64 value is not modelled; nothing below reads it).
  An object keeps its members in insertion order, one member per key.
\<close>

datatype json =
    JNull
  | JBool bool
  | JNumber string
  | JString "nat list"
  | JArray "json list"
  | JObject "(nat list \<times> json) list"

text \<open>A JavaScript \<open>number\<close>: a finite value, an infinity or NaN.\<close>

datatype number = NaN | NegInfinity | Finite real | PosInfinity

text \<open>The comparison \<open>a >= b\<close> of two numbers; every comparison with NaN is false.\<close>

fun number_ge :: "number \<Rightarrow> number \<Rightarrow> bool" where
  "number_ge NaN _ = False"
| "number_ge _ NaN = False"
| "number_ge PosInfinity _ = True"
| "number_ge _ NegInfinity = True"
| "number_ge NegInfinity _ = False"
| "number_ge _ PosInfinity = False"
| "number_ge (Finite a) (Finite b) = (b \<le> a)"

record ReminderData =
  reminder_content :: string
  scheduled_time :: string
  confidence_score :: number

text \<open>
  \<open>HistoryItem\<close> is built as \<open>{...data, id, createdAt, originalInput}\<close>, where \<open>data\<close> is
  the value \<open>JSON.parse\<close> returned, cast (not checked) to \<open>ReminderData\<close>. The three
  fields written after the spread win over members of \<open>data\<close> with the same names, so the
  item is the data together with these three fields (\<open>item_id\<close> is the field \<open>id\<close>).
\<close>

record HistoryItem =
  item_data :: json
  item_id :: string
  createdAt :: string
  originalInput :: string

section \<open>The platform's JSON.parse\<close>

datatype token =
    LBrace | RBrace | LBracket | RBracket | Colon | Comma
  | TString "nat list" | TNumber string | TTrue | TFalse | TNull

definition is_json_ws :: "char \<Rightarrow> bool" where
  "is_json_ws c = (c = CHR 0x20 \<or> c = CHR 0x09 \<or> c = CHR 0x0A \<or> c = CHR 0x0D)"

definition is_digit :: "char \<Rightarrow> bool" where
  "is_digit c = (let n = (of_char c :: nat) in 48 \<le> n \<and> n \<le> 57)"

definition hex_val :: "char \<Rightarrow> nat option" where
  "hex_val c =
     (let n = (of_char c :: nat) in
      if 48 \<le> n \<and> n \<le> 57 then Some (n - 48)
      else if 65 \<le> n \<and> n \<le> 70 then Some (n - 55)
      else if 97 \<le> n \<and> n \<le> 102 then Some (n - 87)
      else None)"

definition hex4 :: "char \<Rightarrow> char \<Rightarrow> char \<Rightarrow> char \<Rightarrow> nat option" where
  "hex4 a b c d =
     (case (hex_val a, hex_val b, hex_val c, hex_val d) of
        (Some w, Some x, Some y, Some z) \<Rightarrow> Some (((w * 16 + x) * 16 + y) * 16 + z)
      | _ \<Rightarrow> None)"

text \<open>The single-character escapes: quote, backslash, slash, b, f, n, r, t.\<close>

definition unescape :: "char \<Rightarrow> nat option" where
  "unescape e =
     (if e = CHR 0x22 then Some 0x22
      else if e = CHR 0x5C then Some 0x5C
      else if e = CHR 0x2F then Some 0x2F
      else if e = CHR ''b'' then Some 0x08
      else if e = CHR ''f'' then Some 0x0C
      else if e = CHR ''n'' then Some 0x0A
      else if e = CHR ''r'' then Some 0x0D
      else if e = CHR ''t'' then Some 0x09
      else None)"

text \<open>
  The characters of a string after its opening quote, up to the closing quote: the code
  units of the string and the text after it. A control character, a bad escape or a
  missing closing quote is a syntax error.
\<close>

fun lex_string :: "string \<Rightarrow> (nat list \<times> string) option" where
  "lex_string [] = None"
| "lex_string (c # cs) =
     (if c = CHR 0x22 then Some ([], cs)
      else if c = CHR 0x5C then
        (case cs of
           [] \<Rightarrow> None
         | e # cs' \<Rightarrow>
             if e = CHR ''u'' then
               (case cs' of
                  h1 # h2 # h3 # h4 # cs'' \<Rightarrow>
                    (case hex4 h1 h2 h3 h4 of
                       None \<Rightarrow> None
                     | Some u \<Rightarrow>
                         (case lex_string cs'' of
                            None \<Rightarrow> None
                          | Some (str, rest) \<Rightarrow> Some (u # str, rest)))
                | _ \<Rightarrow> None)
             else
               (case unescape e of
                  None \<Rightarrow> None
                | Some u \<Rightarrow>
                    (case lex_string cs' of
                       None \<Rightarrow> None
                     | Some (str, rest) \<Rightarrow> Some (u # str, rest))))
      else if (of_char c :: nat) < 0x20 then None
      else
        (case lex_string cs of
           None \<Rightarrow> None
         | Some (str, rest) \<Rightarrow> Some (of_char c # str, rest)))"

text \<open>
  A number: an optional minus, an integer part (a single 0, or a nonzero digit and
  more digits), an optional fraction (a point and at least one digit), an optional
  exponent (e or E, an optional sign, at least one digit).
\<close>

definition lex_int :: "string \<Rightarrow> (string \<times> string) option" where
  "lex_int s =
     (case s of
        [] \<Rightarrow> None
      | c # cs \<Rightarrow>
          if c = CHR ''0'' then Some ([c], cs)
          else if is_digit c then Some (c # takeWhile is_digit cs, dropWhile is_digit cs)
          else None)"

definition lex_frac :: "string \<Rightarrow> (string \<times> string) option" where
  "lex_frac s =
     (case s of
        c # cs \<Rightarrow>
          if c = CHR ''.'' then
            (if takeWhile is_digit cs = [] then None
             else Some (c # takeWhile is_digit cs, dropWhile is_digit cs))
          else Some ([], s)
      | [] \<Rightarrow> Some ([], s))"

definition lex_exp :: "string \<Rightarrow> (string \<times> string) option" where
  "lex_exp s =
     (case s of
        c # cs \<Rightarrow>
          if c = CHR ''e'' \<or> c = CHR ''E'' then
            (let (sg, ds) =
               (case cs of
                  d # cs' \<Rightarrow> if d = CHR ''+'' \<or> d = CHR ''-'' then ([d], cs') else ([], cs)
                | [] \<Rightarrow> ([], cs))
             in if takeWhile is_digit ds = [] then None
                else Some (c # sg @ takeWhile is_digit ds, dropWhile is_digit ds))
          else Some ([], s)
      | [] \<Rightarrow> Some ([], s))"

definition lex_number :: "string \<Rightarrow> (string \<times> string) option" where
  "lex_number s =
     (let (sign, s0) =
        (case s of
           c # cs \<Rightarrow> if c = CHR ''-'' then ([c], cs) else ([], s)
         | [] \<Rightarrow> ([], s))
      in case lex_int s0 of
           None \<Rightarrow> None
         | Some (ip, s1) \<Rightarrow>
             (case lex_frac s1 of
                None \<Rightarrow> None
              | Some (fp, s2) \<Rightarrow>
                  (case lex_exp s2 of
                     None \<Rightarrow> None
                   | Some (ep, s3) \<Rightarrow> Some (sign @ ip @ fp @ ep, s3))))"

lemma lex_string_shorter: "lex_string s = Some (str, rest) \<Longrightarrow> length rest < length s"
proof (induction s arbitrary: str rest rule: lex_string.induct)
  case 1
  then show ?case by simp
next
  case (2 c cs)
  show ?case
  proof (cases "c = CHR 0x22")
    case True
    with 2(4) show ?thesis by simp
  next
    case nq: False
    show ?thesis
    proof (cases "c = CHR 0x5C")
      case bs: True
      show ?thesis
      proof (cases cs)
        case Nil
        with 2(4) nq bs show ?thesis by simp
      next
        case (Cons e cs')
        show ?thesis
        proof (cases "e = CHR ''u''")
          case u: True
          from 2(4) nq bs Cons u obtain h1 t1 where c1: "cs' = h1 # t1"
            by (cases cs') auto
          from 2(4) nq bs Cons u c1 obtain h2 t2 where c2: "t1 = h2 # t2"
            by (cases t1) auto
          from 2(4) nq bs Cons u c1 c2 obtain h3 t3 where c3: "t2 = h3 # t3"
            by (cases t2) auto
          from 2(4) nq bs Cons u c1 c2 c3 obtain h4 t4 where c4: "t3 = h4 # t4"
            by (cases t3) auto
          from 2(4) nq bs Cons u c1 c2 c3 c4 obtain v str' where
            h: "hex4 h1 h2 h3 h4 = Some v" and r: "lex_string t4 = Some (str', rest)"
            by (auto split: option.splits)
          from "2.IH"(1) [OF nq bs Cons u c1 c2 c3 c4 h r] c1 c2 c3 c4 Cons
          show ?thesis by simp
        next
          case nu: False
          from 2(4) nq bs Cons nu obtain v str' where
            h: "unescape e = Some v" and r: "lex_string cs' = Some (str', rest)"
            by (auto split: option.splits)
          from "2.IH"(2) [OF nq bs Cons nu h r] Cons show ?thesis by simp
        qed
      qed
    next
      case nbs: False
      from 2(4) nq nbs obtain str' where
        ok: "\<not> (of_char c :: nat) < 0x20" and r: "lex_string cs = Some (str', rest)"
        by (auto split: option.splits if_splits)
      from "2.IH"(3) [OF nq nbs ok r] show ?thesis by simp
    qed
  qed
qed

lemma dropWhile_shorter: "length (dropWhile P xs) < Suc (length xs)"
  by (simp add: less_Suc_eq_le length_dropWhile_le)

lemma lex_int_shorter: "lex_int s = Some (l, rest) \<Longrightarrow> length rest < length s"
  unfolding lex_int_def
  by (cases s) (auto simp: dropWhile_shorter split: if_splits)

lemma lex_frac_shorter: "lex_frac s = Some (l, rest) \<Longrightarrow> length rest \<le> length s"
  unfolding lex_frac_def
  by (cases s) (auto simp: le_SucI length_dropWhile_le split: if_splits)

lemma lex_exp_shorter: "lex_exp s = Some (l, rest) \<Longrightarrow> length rest \<le> length s"
proof (cases s)
  case Nil
  assume "lex_exp s = Some (l, rest)"
  with Nil show ?thesis by (simp add: lex_exp_def)
next
  case (Cons c cs)
  assume a: "lex_exp s = Some (l, rest)"
  show ?thesis
  proof (cases "c = CHR ''e'' \<or> c = CHR ''E''")
    case False
    with a Cons show ?thesis by (auto simp: lex_exp_def)
  next
    case True
    obtain sg ds where sd: "(case cs of
                  d # cs' \<Rightarrow> if d = CHR ''+'' \<or> d = CHR ''-'' then ([d], cs') else ([], cs)
                | [] \<Rightarrow> ([], cs)) = (sg, ds)"
      by (cases "(case cs of
                  d # cs' \<Rightarrow> if d = CHR ''+'' \<or> d = CHR ''-'' then ([d], cs') else ([], cs)
                | [] \<Rightarrow> ([], cs))") auto
    then have "length ds \<le> length cs"
      by (auto split: list.splits if_splits)
    moreover from a Cons True sd have "rest = dropWhile is_digit ds"
      by (auto simp: lex_exp_def split: if_splits)
    moreover have "length (dropWhile is_digit ds) \<le> length ds"
      by (rule length_dropWhile_le)
    ultimately show ?thesis using Cons by simp
  qed
qed

lemma lex_number_shorter: "lex_number s = Some (l, rest) \<Longrightarrow> length rest < length s"
proof -
  assume a: "lex_number s = Some (l, rest)"
  obtain sign s0 where s0: "(case s of
           c # cs \<Rightarrow> if c = CHR ''-'' then ([c], cs) else ([], s)
         | [] \<Rightarrow> ([], s)) = (sign, s0)"
    by (cases "(case s of
           c # cs \<Rightarrow> if c = CHR ''-'' then ([c], cs) else ([], s)
         | [] \<Rightarrow> ([], s))") auto
  then have l0: "length s0 \<le> length s"
    by (auto split: list.splits if_splits)
  from a s0 obtain ip s1 where i: "lex_int s0 = Some (ip, s1)"
    by (cases "lex_int s0") (auto simp: lex_number_def)
  from a s0 i obtain fp s2 where f: "lex_frac s1 = Some (fp, s2)"
    by (cases "lex_frac s1") (auto simp: lex_number_def)
  from a s0 i f obtain ep where e: "lex_exp s2 = Some (ep, rest)"
    by (cases "lex_exp s2") (auto simp: lex_number_def)
  from lex_int_shorter [OF i] lex_frac_shorter [OF f] lex_exp_shorter [OF e] l0
  show ?thesis by linarith
qed

text \<open>
  The tokens of a text. JSON white space (space, tab, line feed, carriage return) is
  skipped between tokens; any other character that starts no token is a syntax error.
\<close>

function tokenize :: "string \<Rightarrow> token list option" where
  "tokenize [] = Some []"
| "tokenize (c # cs) =
     (if is_json_ws c then tokenize cs
      else if c = CHR ''{'' then map_option (Cons LBrace) (tokenize cs)
      else if c = CHR ''}'' then map_option (Cons RBrace) (tokenize cs)
      else if c = CHR ''['' then map_option (Cons LBracket) (tokenize cs)
      else if c = CHR '']'' then map_option (Cons RBracket) (tokenize cs)
      else if c = CHR '':'' then map_option (Cons Colon) (tokenize cs)
      else if c = CHR '','' then map_option (Cons Comma) (tokenize cs)
      else if c = CHR 0x22 then
        (case lex_string cs of
           None \<Rightarrow> None
         | Some (str, rest) \<Rightarrow> map_option (Cons (TString str)) (tokenize rest))
      else if c = CHR ''-'' \<or> is_digit c then
        (case lex_number (c # cs) of
           None \<Rightarrow> None
         | Some (num, rest) \<Rightarrow> map_option (Cons (TNumber num)) (tokenize rest))
      else if take 4 (c # cs) = ''true'' then map_option (Cons TTrue) (tokenize (drop 3 cs))
      else if take 5 (c # cs) = ''false'' then map_option (Cons TFalse) (tokenize (drop 4 cs))
      else if take 4 (c # cs) = ''null'' then map_option (Cons TNull) (tokenize (drop 3 cs))
      else None)"
  by pat_completeness auto
termination
proof (relation "measure length")
  fix c cs x2 str rest
  assume "lex_string cs = Some x2" "(str, rest) = x2"
  then have "lex_string cs = Some (str, rest)" by simp
  from lex_string_shorter [OF this]
  show "(rest, c # cs) \<in> measure length" by simp
next
  fix c cs x2 num rest
  assume "lex_number (c # cs) = Some x2" "(num, rest) = x2"
  then have "lex_number (c # cs) = Some (num, rest)" by simp
  from lex_number_shorter [OF this]
  show "(rest, c # cs) \<in> measure length" by simp
qed simp_all

text \<open>
  Assigning a member of an object under construction: a repeated key keeps its first
  position and takes the later value.
\<close>

fun obj_set :: "(nat list \<times> json) list \<Rightarrow> nat list \<Rightarrow> json \<Rightarrow> (nat list \<times> json) list" where
  "obj_set [] k v = [(k, v)]"
| "obj_set ((k', v') # ms) k v = (if k' = k then (k, v) # ms else (k', v') # obj_set ms k v)"

text \<open>
  The grammar is parsed by a machine with a stack of the enclosing arrays and objects:
  \<open>InArr es\<close> is an array whose elements so far are \<open>es\<close> (latest first), \<open>InObj ms k\<close> an
  object with the members \<open>ms\<close> whose member \<open>k\<close> is being read.
\<close>

datatype frame = InArr "json list" | InObj "(nat list \<times> json) list" "nat list"

datatype pstate =
    NeedValue "frame list"
  | ArrOpen "frame list"
  | ObjOpen "frame list"
  | NeedKey "(nat list \<times> json) list" "frame list"
  | NeedColon "(nat list \<times> json) list" "nat list" "frame list"
  | ArrNext "json list" "frame list"
  | ObjNext "(nat list \<times> json) list" "frame list"
  | Done json

text \<open>A finished value goes to the innermost enclosing array or object.\<close>

fun deliver :: "json \<Rightarrow> frame list \<Rightarrow> pstate" where
  "deliver v [] = Done v"
| "deliver v (InArr es # fs) = ArrNext (v # es) fs"
| "deliver v (InObj ms k # fs) = ObjNext (obj_set ms k v) fs"

text \<open>A token where a value must start.\<close>

fun start_value :: "token \<Rightarrow> frame list \<Rightarrow> pstate option" where
  "start_value TNull fs = Some (deliver JNull fs)"
| "start_value TTrue fs = Some (deliver (JBool True) fs)"
| "start_value TFalse fs = Some (deliver (JBool False) fs)"
| "start_value (TNumber n) fs = Some (deliver (JNumber n) fs)"
| "start_value (TString s) fs = Some (deliver (JString s) fs)"
| "start_value LBracket fs = Some (ArrOpen fs)"
| "start_value LBrace fs = Some (ObjOpen fs)"
| "start_value _ fs = None"

fun pstep :: "token \<Rightarrow> pstate \<Rightarrow> pstate option" where
  "pstep t (NeedValue fs) = start_value t fs"
| "pstep t (ArrOpen fs) =
     (if t = RBracket then Some (deliver (JArray []) fs) else start_value t (InArr [] # fs))"
| "pstep t (ObjOpen fs) =
     (case t of
        RBrace \<Rightarrow> Some (deliver (JObject []) fs)
      | TString k \<Rightarrow> Some (NeedColon [] k fs)
      | _ \<Rightarrow> None)"
| "pstep t (NeedKey ms fs) = (case t of TString k \<Rightarrow> Some (NeedColon ms k fs) | _ \<Rightarrow> None)"
| "pstep t (NeedColon ms k fs) = (if t = Colon then Some (NeedValue (InObj ms k # fs)) else None)"
| "pstep t (ArrNext es fs) =
     (case t of
        Comma \<Rightarrow> Some (NeedValue (InArr es # fs))
      | RBracket \<Rightarrow> Some (deliver (JArray (rev es)) fs)
      | _ \<Rightarrow> None)"
| "pstep t (ObjNext ms fs) =
     (case t of
        Comma \<Rightarrow> Some (NeedKey ms fs)
      | RBrace \<Rightarrow> Some (deliver (JObject ms) fs)
      | _ \<Rightarrow> None)"
| "pstep t (Done v) = None"

fun prun :: "token list \<Rightarrow> pstate \<Rightarrow> pstate option" where
  "prun [] st = Some st"
| "prun (t # ts) st = (case pstep t st of None \<Rightarrow> None | Some st' \<Rightarrow> prun ts st')"

text \<open>
  \<open>JSON.parse\<close>: the value the text denotes, or \<open>None\<close> where the platform throws a
  \<open>SyntaxError\<close> (the text is not exactly one JSON value).
\<close>

definition JSON_parse :: "string \<Rightarrow> json option" where
  "JSON_parse text =
     (case tokenize text of
        None \<Rightarrow> None
      | Some ts \<Rightarrow> (case prun ts (NeedValue []) of Some (Done v) \<Rightarrow> Some v | _ \<Rightarrow> None))"

section \<open>The platform's clock and number formatting\<close>

text \<open>
  A time is the number of milliseconds since 1970-01-01T00:00:00Z, as \<open>Date.now()\<close>
  returns it; the clock of a running browser is after that instant.
\<close>

definition digit_char :: "nat \<Rightarrow> char" where
  "digit_char d = char_of (48 + d)"

text \<open>The last \<open>w\<close> decimal digits of \<open>n\<close>, padded with zeros.\<close>

primrec pad :: "nat \<Rightarrow> nat \<Rightarrow> string" where
  "pad 0 n = []"
| "pad (Suc w) n = pad w (n div 10) @ [digit_char (n mod 10)]"

text \<open>\<open>n.toString()\<close> for a natural number below \<open>10^21\<close>: its decimal digits.\<close>

fun nat_toString :: "nat \<Rightarrow> string" where
  "nat_toString n = (if n < 10 then [digit_char n] else nat_toString (n div 10) @ [digit_char (n mod 10)])"

declare nat_toString.simps [simp del]

text \<open>Year, month and day of the proleptic Gregorian calendar, from the day number.\<close>

definition civil_from_days :: "nat \<Rightarrow> nat \<times> nat \<times> nat" where
  "civil_from_days days =
     (let z = days + 719468;
          era = z div 146097;
          doe = z mod 146097;
          yoe = (doe - doe div 1460 + doe div 36524 - doe div 146096) div 365;
          doy = doe - (365 * yoe + yoe div 4 - yoe div 100);
          mp = (5 * doy + 2) div 153;
          d = doy - (153 * mp + 2) div 5 + 1;
          m = (if mp < 10 then mp + 3 else mp - 9);
          y = yoe + era * 400 + (if m \<le> 2 then 1 else 0)
      in (y, m, d))"

text \<open>
  \<open>new Date(ms).toISOString()\<close>: \<open>YYYY-MM-DDTHH:mm:ss.sssZ\<close>, the year with six digits
  and a sign beyond 9999.
\<close>

definition toISOString :: "nat \<Rightarrow> string" where
  "toISOString ms =
     (let (y, m, d) = civil_from_days (ms div 86400000);
          t = ms mod 86400000
      in (if y \<le> 9999 then pad 4 y else CHR ''+'' # pad 6 y) @ ''-'' @ pad 2 m @ ''-'' @ pad 2 d
         @ ''T'' @ pad 2 (t div 3600000) @ '':'' @ pad 2 (t div 60000 mod 60)
         @ '':'' @ pad 2 (t div 1000 mod 60) @ ''.'' @ pad 3 (t mod 1000) @ ''Z'')"

section \<open>Inference client (services/geminiService.ts)\<close>

text \<open>
  What \<open>parseInput\<close> can throw: an \<open>Error\<close> with a message, the \<open>SyntaxError\<close> of
  \<open>JSON.parse\<close>, or whatever the provider's client library throws (a transport failure,
  a refused request).
\<close>

datatype js_error = Error string | SyntaxError | ProviderFailure string

datatype parse_input = TextInput string | AudioInput string string

datatype part = TextPart string | InlineData string string

text \<open>
  The request sent to the provider. The system instruction is a constant text and is
  left out; \<open>required\<close> is the list of required members of the response schema.
\<close>

record request =
  model :: string
  parts :: "part list"
  responseMimeType :: string
  required :: "string list"
  temperature :: real

text \<open>
  The environment of one call: the configured key (\<open>process.env.API_KEY\<close>), the clock,
  the time zone of the browser, and the provider, which answers a request with the text
  of its response (\<open>response.text\<close>, which may be undefined) or throws.
\<close>

record service_env =
  API_KEY :: "string option"
  now :: nat
  timeZone :: string
  generateContent :: "request \<Rightarrow> js_error + string option"

definition contextPrompt :: "service_env \<Rightarrow> string" where
  "contextPrompt env =
     [CHR 0x0A] @ ''### CONTEXT FOR TIME RESOLUTION'' @ [CHR 0x0A]
     @ ''* **NOW Reference (Current UTC Time):** '' @ toISOString (now env) @ [CHR 0x0A]
     @ ''* **User Timezone:** '' @ timeZone env @ [CHR 0x0A, CHR 0x0A]
     @ ''### TASK'' @ [CHR 0x0A]
     @ ''Process the user input provided and return the JSON object.'' @ [CHR 0x0A] @ ''  ''"

definition contents :: "service_env \<Rightarrow> parse_input \<Rightarrow> part list" where
  "contents env input =
     (case input of
        TextInput text \<Rightarrow> [TextPart (contextPrompt env), TextPart (''[USER_INPUT]: '' @ text)]
      | AudioInput data mimeType \<Rightarrow>
          [TextPart (contextPrompt env),
           TextPart ''The following is an audio recording of the reminder. Transcribe and process it.'',
           InlineData mimeType data])"

definition build_request :: "service_env \<Rightarrow> parse_input \<Rightarrow> request" where
  "build_request env input =
     \<lparr>model = ''gemini-2.5-flash'', parts = contents env input,
      responseMimeType = ''application/json'',
      required = [''reminder_content'', ''scheduled_time'', ''confidence_score''],
      temperature = 0.1\<rparr>"

definition audio_placeholder :: string where
  "audio_placeholder = ''(Audio Transcription handled by AI)''"

definition rawText_of :: "parse_input \<Rightarrow> string" where
  "rawText_of input = (case input of TextInput text \<Rightarrow> text | AudioInput _ _ \<Rightarrow> audio_placeholder)"

text \<open>
  \<open>parseInput\<close>: \<open>Inl\<close> is the error thrown, \<open>Inr\<close> the result \<open>{data, rawText}\<close>. The
  \<open>catch\<close> block logs the error and throws it again, so every error of the \<open>try\<close> block
  reaches the caller as it is. An absent or empty key and an absent or empty response
  text are the falsy values of the two \<open>!\<close> tests. The parsed value is cast to
  \<open>ReminderData\<close>, which checks nothing at run time.
\<close>

definition parseInput :: "service_env \<Rightarrow> parse_input \<Rightarrow> js_error + (json \<times> string)" where
  "parseInput env input =
     (if API_KEY env = None \<or> API_KEY env = Some [] then
        Inl (Error ''API Key not found in environment variables'')
      else
        (case generateContent env (build_request env input) of
           Inl err \<Rightarrow> Inl err
         | Inr responseText \<Rightarrow>
             (if responseText = None \<or> responseText = Some [] then
                Inl (Error ''No response from Gemini'')
              else
                (case JSON_parse (the responseText) of
                   None \<Rightarrow> Inl SyntaxError
                 | Some parsedData \<Rightarrow> Inr (parsedData, rawText_of input)))))"

text \<open>Reading a member of a parsed value: \<open>None\<close> is JavaScript's \<open>undefined\<close>.\<close>

definition get_field :: "string \<Rightarrow> json \<Rightarrow> json option" where
  "get_field k v = (case v of JObject ms \<Rightarrow> map_of ms (map of_char k) | _ \<Rightarrow> None)"

text \<open>An object that lacks one of the three members of \<open>ReminderData\<close>.\<close>

definition missing_field :: "json \<Rightarrow> bool" where
  "missing_field v =
     (case v of
        JObject ms \<Rightarrow>
          get_field ''reminder_content'' v = None \<or> get_field ''scheduled_time'' v = None
          \<or> get_field ''confidence_score'' v = None
      | _ \<Rightarrow> False)"

section \<open>Session orchestrator (App.tsx)\<close>

text \<open>
  What the platform supplies while one inference call completes: the environment of
  \<open>parseInput\<close>, \<open>crypto.randomUUID\<close> (\<open>None\<close> where the platform has no such function,
  else the value it returns), and the two clock readings taken by \<open>generateId\<close> and by
  \<open>new Date()\<close>.
\<close>

record call_env =
  service :: service_env
  randomUUID :: "string option"
  Date_now :: nat
  new_Date :: nat

definition generateId :: "call_env \<Rightarrow> string" where
  "generateId env = (case randomUUID env of Some uuid \<Rightarrow> uuid | None \<Rightarrow> nat_toString (Date_now env))"

text \<open>
  A call of \<open>processInput\<close> that waits for \<open>parseInput\<close>: its input, the \<open>status\<close> its
  closure holds (the status of the render that created the handler), and whether
  \<open>handleTextSubmit\<close> made it (which clears the text input afterwards).
\<close>

record pending_call =
  pc_input :: parse_input
  pc_status :: ParseStatus
  pc_text :: bool

text \<open>
  The state of the component: the four state variables, the calls in flight, the resets
  scheduled with \<open>setTimeout\<close> (due time and the status their closure holds), the
  clock of the timers in milliseconds, and the statuses of the renders so far.
\<close>

record app =
  status :: ParseStatus
  textInput :: string
  history :: "HistoryItem list"
  errorMsg :: "string option"
  pending :: "pending_call list"
  timers :: "(nat \<times> ParseStatus) list"
  clock :: nat
  rendered :: "ParseStatus list"

definition init_app :: app where
  "init_app =
     \<lparr>status = IDLE, textInput = [], history = [], errorMsg = None, pending = [], timers = [],
      clock = 0, rendered = [IDLE]\<rparr>"

text \<open>
  \<open>String.prototype.trim\<close> removes white space and line terminators at both ends; of
  the code units below 256 these are 9 to 13, 32 and 160.
\<close>

definition is_js_space :: "char \<Rightarrow> bool" where
  "is_js_space c = (let n = (of_char c :: nat) in (9 \<le> n \<and> n \<le> 13) \<or> n = 32 \<or> n = 160)"

definition trim :: "string \<Rightarrow> string" where
  "trim s = rev (dropWhile is_js_space (rev (dropWhile is_js_space s)))"

text \<open>\<open>processInput\<close> up to its \<open>await\<close>: the call is in flight.\<close>

definition processInput_start :: "pending_call \<Rightarrow> app \<Rightarrow> app" where
  "processInput_start c s = s\<lparr>status := PROCESSING, errorMsg := None, pending := pending s @ [c]\<rparr>"

definition newItem :: "call_env \<Rightarrow> json \<Rightarrow> string \<Rightarrow> HistoryItem" where
  "newItem env data rawText =
     \<lparr>item_data = data, item_id = generateId env, createdAt = toISOString (new_Date env),
      originalInput = rawText\<rparr>"

text \<open>The callback of the reset timer; \<open>st\<close> is the status its closure holds.\<close>

definition reset_callback :: "ParseStatus \<Rightarrow> app \<Rightarrow> app" where
  "reset_callback st s = (if st \<noteq> RECORDING then s\<lparr>status := IDLE\<rparr> else s)"

text \<open>
  \<open>processInput\<close> after its \<open>await\<close>: the \<open>try\<close> block on success, the \<open>catch\<close> block on
  an error, then the \<open>finally\<close> block, which schedules the reset 2000 ms ahead.
\<close>

definition processInput_finish :: "call_env \<Rightarrow> pending_call \<Rightarrow> app \<Rightarrow> app" where
  "processInput_finish env c s =
     (let s1 =
        (case parseInput (service env) (pc_input c) of
           Inr (data, rawText) \<Rightarrow>
             s\<lparr>history := newItem env data rawText # history s, status := SUCCESS\<rparr>
         | Inl err \<Rightarrow>
             s\<lparr>status := ERROR, errorMsg := Some ''Failed to process input. Please try again.''\<rparr>)
      in s1\<lparr>timers := timers s1 @ [(clock s1 + 2000, pc_status c)]\<rparr>)"

text \<open>One call of \<open>processInput\<close> with nothing else happening before it completes.\<close>

definition processInput :: "call_env \<Rightarrow> pending_call \<Rightarrow> app \<Rightarrow> app" where
  "processInput env c s = processInput_finish env c (s\<lparr>status := PROCESSING, errorMsg := None\<rparr>)"

text \<open>\<open>handleTextSubmit\<close> up to the \<open>await\<close>; \<open>handleAudioComplete\<close> likewise.\<close>

definition handleTextSubmit :: "app \<Rightarrow> app" where
  "handleTextSubmit s =
     (if trim (textInput s) = [] then s
      else processInput_start
             \<lparr>pc_input = TextInput (textInput s), pc_status = status s, pc_text = True\<rparr> s)"

definition handleAudioComplete :: "ParseStatus \<Rightarrow> string \<Rightarrow> string \<Rightarrow> app \<Rightarrow> app" where
  "handleAudioComplete st base64Data mimeType s =
     processInput_start
       \<lparr>pc_input = AudioInput base64Data mimeType, pc_status = st, pc_text = False\<rparr> s"

text \<open>
  The call at position \<open>i\<close> of the calls in flight resumes: \<open>processInput\<close> completes and,
  for a text submission, \<open>handleTextSubmit\<close> clears the text input.
\<close>

definition resume :: "call_env \<Rightarrow> nat \<Rightarrow> app \<Rightarrow> app" where
  "resume env i s =
     (if i < length (pending s) then
        (let c = pending s ! i;
             s1 = processInput_finish env c (s\<lparr>pending := take i (pending s) @ drop (Suc i) (pending s)\<rparr>)
         in if pc_text c then s1\<lparr>textInput := []\<rparr> else s1)
      else s)"

text \<open>
  Time passes: the timers that are due run in the order they were set, and leave the
  list.
\<close>

definition elapse :: "nat \<Rightarrow> app \<Rightarrow> app" where
  "elapse d s =
     (let t = clock s + d;
          due = filter (\<lambda>(T, st). T \<le> t) (timers s);
          s1 = s\<lparr>clock := t, timers := filter (\<lambda>(T, st). \<not> T \<le> t) (timers s)\<rparr>
      in fold (\<lambda>(T, st). reset_callback st) due s1)"

text \<open>
  What can happen to the component. The handler of a text submission is the one of the
  latest render; the audio capture unit holds the completion handler of the render in
  which recording was started, \<open>AudioComplete i\<close> naming that render. After each event
  the component renders.
\<close>

datatype event =
    Type string
  | SubmitText
  | AudioComplete nat string string
  | Settled nat call_env
  | Elapse nat

fun react :: "event \<Rightarrow> app \<Rightarrow> app" where
  "react (Type text) s = s\<lparr>textInput := text\<rparr>"
| "react SubmitText s = handleTextSubmit s"
| "react (AudioComplete i base64Data mimeType) s =
     (if i < length (rendered s) then handleAudioComplete (rendered s ! i) base64Data mimeType s
      else s)"
| "react (Settled i env) s = resume env i s"
| "react (Elapse d) s = elapse d s"

definition step :: "event \<Rightarrow> app \<Rightarrow> app" where
  "step e s = (let s' = react e s in s'\<lparr>rendered := rendered s' @ [status s']\<rparr>)"

definition run :: "event list \<Rightarrow> app \<Rightarrow> app" where
  "run es s = fold step es s"

text \<open>Submissions made one after the other, each completing before the next starts.\<close>

definition submit_all :: "(call_env \<times> pending_call) list \<Rightarrow> app \<Rightarrow> app" where
  "submit_all xs s = fold (\<lambda>(env, c). processInput env c) xs s"

text \<open>The history item a call creates, if its inference call succeeds.\<close>

definition created :: "call_env \<Rightarrow> pending_call \<Rightarrow> HistoryItem option" where
  "created env c =
     (case parseInput (service env) (pc_input c) of
        Inr (data, rawText) \<Rightarrow> Some (newItem env data rawText)
      | Inl err \<Rightarrow> None)"

text \<open>
  No closure and no state of the component holds the status \<open>RECORDING\<close>: the component
  never sets it.
\<close>

definition no_recording :: "app \<Rightarrow> bool" where
  "no_recording s =
     (status s \<noteq> RECORDING
      \<and> list_all (\<lambda>st. st \<noteq> RECORDING) (rendered s)
      \<and> list_all (\<lambda>c. pc_status c \<noteq> RECORDING) (pending s)
      \<and> list_all (\<lambda>(T, st). st \<noteq> RECORDING) (timers s))"

text \<open>
  The clock read by \<open>Date\<close>. In a timed session \<open>Date.now()\<close> and \<open>new Date()\<close> read the
  clock of the model, which starts at any reading, advances with \<open>Elapse\<close> and is never
  set back. \<open>on_clock\<close> gives a call that completes in the state \<open>s\<close> these readings:
  the \<open>now\<close> of \<open>parseInput\<close> is the reading taken when the call started, and
  \<open>generateId\<close> and \<open>new Date()\<close> read the clock of \<open>s\<close>.
\<close>

definition on_clock :: "call_env \<Rightarrow> nat \<Rightarrow> app \<Rightarrow> call_env" where
  "on_clock env started s =
     env\<lparr>service := (service env)\<lparr>now := started\<rparr>, Date_now := clock s, new_Date := clock s\<rparr>"

text \<open>
  A step of a timed session. Beside the state it keeps, for each call in flight and in
  the same order, the reading of the clock taken when the call started.
\<close>

fun timed_step :: "event \<Rightarrow> app \<times> nat list \<Rightarrow> app \<times> nat list" where
  "timed_step (Type t) (s, ts) = (step (Type t) s, ts)"
| "timed_step SubmitText (s, ts) =
     (step SubmitText s, if trim (textInput s) = [] then ts else ts @ [clock s])"
| "timed_step (AudioComplete i base64Data mimeType) (s, ts) =
     (step (AudioComplete i base64Data mimeType) s,
      if i < length (rendered s) then ts @ [clock s] else ts)"
| "timed_step (Settled i env) (s, ts) =
     (if i < length (pending s)
      then (step (Settled i (on_clock env (ts ! i) s)) s, take i ts @ drop (Suc i) ts)
      else (step (Settled i env) s, ts))"
| "timed_step (Elapse d) (s, ts) = (step (Elapse d) s, ts)"

definition timed_run :: "event list \<Rightarrow> nat \<Rightarrow> app \<times> nat list" where
  "timed_run es t0 = fold timed_step es (init_app\<lparr>clock := t0\<rparr>, [])"

text \<open>
  An event that completes a call; an event of a platform without \<open>crypto.randomUUID\<close>
  and one of a platform with it; the values \<open>crypto.randomUUID\<close> has returned in a
  session.
\<close>

fun is_settle :: "event \<Rightarrow> bool" where
  "is_settle (Settled i env) = True"
| "is_settle _ = False"

fun uses_fallback :: "event \<Rightarrow> bool" where
  "uses_fallback (Settled i env) = (randomUUID env = None)"
| "uses_fallback _ = True"

fun uses_uuid :: "event \<Rightarrow> bool" where
  "uses_uuid (Settled i env) = (randomUUID env \<noteq> None)"
| "uses_uuid _ = True"

fun uuid_of :: "event \<Rightarrow> string list" where
  "uuid_of (Settled i env) = (case randomUUID env of Some uuid \<Rightarrow> [uuid] | None \<Rightarrow> [])"
| "uuid_of _ = []"

definition uuids :: "event list \<Rightarrow> string list" where
  "uuids es = concat (map uuid_of es)"

text \<open>
  Three facts of timed sessions, proved below: the readings kept are those of the calls
  in flight and none is ahead of the clock; on a platform without \<open>crypto.randomUUID\<close>
  every \<open>id\<close> of the history is the text of a reading that is not ahead of the clock,
  and, once the clock has advanced, of a reading behind it.
\<close>

definition timed_inv :: "app \<times> nat list \<Rightarrow> bool" where
  "timed_inv st = (length (snd st) = length (pending (fst st))
                   \<and> list_all (\<lambda>t. t \<le> clock (fst st)) (snd st))"

definition ids_on_clock :: "app \<Rightarrow> bool" where
  "ids_on_clock s = (\<forall>x\<in>set (history s). \<exists>t\<le>clock s. item_id x = nat_toString t)"

definition ids_before :: "app \<Rightarrow> bool" where
  "ids_before s = (\<forall>x\<in>set (history s). \<exists>t<clock s. item_id x = nat_toString t)"

section \<open>Reminder card (components/ReminderCard.tsx)\<close>

definition isValid :: "ReminderData \<Rightarrow> bool" where
  "isValid data = (number_ge (confidence_score data) (Finite 0.5) \<and> scheduled_time data \<noteq> [])"

section \<open>Audio capture unit (components/AudioRecorder.tsx)\<close>

text \<open>A binary object: its bytes and its MIME type.\<close>

record blob =
  blob_data :: "nat list"
  blob_type :: string

text \<open>
  A \<open>MediaRecorder\<close>: the stream it records, the type the platform reports for its
  recording (\<open>mimeType\<close>), and whether it is recording. Its \<open>onstop\<close> handler is the
  closure made by the call of \<open>startRecording\<close> that created it, and holds that call's
  stream.
\<close>

record media_recorder =
  mr_stream :: nat
  mr_mimeType :: string
  mr_recording :: bool

text \<open>
  The component (its two state variables and its refs; \<open>canvasRef\<close> is set while the
  canvas is in the document, which is while \<open>isRecording\<close> holds in the latest render)
  and the platform objects it has created: the tracks of each stream (\<open>True\<close> for a live
  track), the audio contexts (\<open>True\<close> while open), the recorders, the running intervals,
  the requested animation frames, and the calls of \<open>onRecordingComplete\<close> made so far.
  Identifiers of platform objects are positive numbers.
\<close>

record audio_recorder =
  isRecording :: bool
  recordingTime :: nat
  mediaRecorderRef :: "nat option"
  chunksRef :: "blob list"
  timerRef :: "nat option"
  canvasRef :: bool
  audioContextRef :: "nat option"
  analyserRef :: "nat option"
  dataArrayRef :: bool
  animationFrameRef :: "nat option"
  streams :: "nat \<rightharpoonup> bool list"
  audio_contexts :: "nat \<rightharpoonup> bool"
  recorders :: "nat \<rightharpoonup> media_recorder"
  intervals :: "nat list"
  frames :: "nat list"
  next_id :: nat
  completed :: "(string option \<times> string) list"

definition mount :: audio_recorder where
  "mount =
     \<lparr>isRecording = False, recordingTime = 0, mediaRecorderRef = None, chunksRef = [],
      timerRef = None, canvasRef = False, audioContextRef = None, analyserRef = None,
      dataArrayRef = False, animationFrameRef = None, streams = Map.empty,
      audio_contexts = Map.empty, recorders = Map.empty, intervals = [], frames = [],
      next_id = 1, completed = []\<rparr>"

text \<open>The test \<open>if (ref.current)\<close> on a numeric identifier: null and 0 are falsy.\<close>

definition truthy :: "nat option \<Rightarrow> bool" where
  "truthy r = (case r of None \<Rightarrow> False | Some n \<Rightarrow> n \<noteq> 0)"

definition setIsRecording :: "bool \<Rightarrow> audio_recorder \<Rightarrow> audio_recorder" where
  "setIsRecording b s = s\<lparr>isRecording := b, canvasRef := b\<rparr>"

text \<open>
  \<open>draw\<close> requests the next animation frame and keeps its identifier (painting the
  bars is not modelled); \<open>drawVisualizer\<close> starts it if the canvas, the analyser and the
  data array are there.
\<close>

definition draw :: "audio_recorder \<Rightarrow> audio_recorder" where
  "draw s =
     s\<lparr>animationFrameRef := Some (next_id s), frames := frames s @ [next_id s],
       next_id := next_id s + 1\<rparr>"

definition drawVisualizer :: "audio_recorder \<Rightarrow> audio_recorder" where
  "drawVisualizer s =
     (if \<not> canvasRef s \<or> analyserRef s = None \<or> \<not> dataArrayRef s then s else draw s)"

text \<open>The platform runs the requested frame \<open>i\<close>.\<close>

definition animation_frame :: "nat \<Rightarrow> audio_recorder \<Rightarrow> audio_recorder" where
  "animation_frame i s = (if i \<in> set (frames s) then draw (s\<lparr>frames := removeAll i (frames s)\<rparr>) else s)"

definition cancelAnimationFrame :: "nat \<Rightarrow> audio_recorder \<Rightarrow> audio_recorder" where
  "cancelAnimationFrame i s = s\<lparr>frames := removeAll i (frames s)\<rparr>"

definition clearInterval :: "nat \<Rightarrow> audio_recorder \<Rightarrow> audio_recorder" where
  "clearInterval i s = s\<lparr>intervals := removeAll i (intervals s)\<rparr>"

definition close_context :: "nat \<Rightarrow> audio_recorder \<Rightarrow> audio_recorder" where
  "close_context ctx s =
     (case audio_contexts s ctx of
        None \<Rightarrow> s
      | Some _ \<Rightarrow> s\<lparr>audio_contexts := (audio_contexts s)(ctx \<mapsto> False)\<rparr>)"

definition stop_tracks :: "nat \<Rightarrow> audio_recorder \<Rightarrow> audio_recorder" where
  "stop_tracks stream s =
     (case streams s stream of
        None \<Rightarrow> s
      | Some ts \<Rightarrow> s\<lparr>streams := (streams s)(stream \<mapsto> map (\<lambda>_. False) ts)\<rparr>)"

text \<open>
  \<open>startRecording\<close> once \<open>getUserMedia\<close> has given a stream with \<open>ntracks\<close> live tracks;
  \<open>mimeType\<close> is the type the platform's recorder will report for this stream. Where
  access to the microphone is refused, the \<open>catch\<close> block alerts and nothing changes.
\<close>

definition startRecording :: "nat \<Rightarrow> string \<Rightarrow> audio_recorder \<Rightarrow> audio_recorder" where
  "startRecording ntracks mimeType s =
     (let stream = next_id s;
          audioContext = next_id s + 1;
          s1 = s\<lparr>streams := (streams s)(stream \<mapsto> replicate ntracks True),
                 audio_contexts := (audio_contexts s)(audioContext \<mapsto> True),
                 audioContextRef := Some audioContext,
                 analyserRef := Some audioContext,
                 dataArrayRef := True,
                 next_id := next_id s + 2\<rparr>;
          s2 = drawVisualizer s1;
          recorder = next_id s2;
          s3 = s2\<lparr>recorders := (recorders s2)(recorder \<mapsto>
                        \<lparr>mr_stream = stream, mr_mimeType = mimeType, mr_recording = True\<rparr>),
                  mediaRecorderRef := Some recorder,
                  chunksRef := [],
                  next_id := next_id s2 + 1\<rparr>;
          s4 = (setIsRecording True s3)\<lparr>recordingTime := 0\<rparr>
      in s4\<lparr>timerRef := Some (next_id s4), intervals := intervals s4 @ [next_id s4],
            next_id := next_id s4 + 1\<rparr>)"

text \<open>The interval's callback, and the recorder's \<open>ondataavailable\<close> handler.\<close>

definition tick :: "audio_recorder \<Rightarrow> audio_recorder" where
  "tick s = s\<lparr>recordingTime := recordingTime s + 1\<rparr>"

definition ondataavailable :: "blob \<Rightarrow> audio_recorder \<Rightarrow> audio_recorder" where
  "ondataavailable chunk s =
     (if length (blob_data chunk) > 0 then s\<lparr>chunksRef := chunksRef s @ [chunk]\<rparr> else s)"

text \<open>
  \<open>stopRecording\<close>. \<open>MediaRecorder.stop\<close> throws on a recorder that is not recording,
  and then the rest of the handler does not run; otherwise the recorder stops, and the
  platform delivers the last data and then the \<open>stop\<close> event.
\<close>

definition stopRecording :: "audio_recorder \<Rightarrow> audio_recorder" where
  "stopRecording s =
     (case mediaRecorderRef s of
        None \<Rightarrow> s
      | Some r \<Rightarrow>
          if \<not> isRecording s then s
          else
            (case recorders s r of
               None \<Rightarrow> s
             | Some mr \<Rightarrow>
                 if \<not> mr_recording mr then s
                 else
                   (let s1 = setIsRecording False (s\<lparr>recorders := (recorders s)(r \<mapsto> mr\<lparr>mr_recording := False\<rparr>)\<rparr>)
                    in if truthy (timerRef s1)
                       then (clearInterval (the (timerRef s1)) s1)\<lparr>timerRef := None\<rparr>
                       else s1)))"

text \<open>Base64 of a list of bytes, and the data URL \<open>FileReader.readAsDataURL\<close> produces.\<close>

definition b64_char :: "nat \<Rightarrow> char" where
  "b64_char n = ''ABCDEFGHIJKLMNOPQRSTUVWXYZabcdefghijklmnopqrstuvwxyz0123456789+/'' ! n"

fun base64 :: "nat list \<Rightarrow> string" where
  "base64 [] = []"
| "base64 [a] = [b64_char (a div 4), b64_char (a mod 4 * 16), CHR ''='', CHR ''='']"
| "base64 [a, b] =
     [b64_char (a div 4), b64_char (a mod 4 * 16 + b div 16), b64_char (b mod 16 * 4), CHR ''='']"
| "base64 (a # b # c # bs) =
     [b64_char (a div 4), b64_char (a mod 4 * 16 + b div 16),
      b64_char (b mod 16 * 4 + c div 64), b64_char (c mod 64)] @ base64 bs"

definition readAsDataURL :: "blob \<Rightarrow> string" where
  "readAsDataURL b = ''data:'' @ blob_type b @ '';base64,'' @ base64 (blob_data b)"

text \<open>\<open>s.split(',')\<close>, and the element at an index (\<open>None\<close> is \<open>undefined\<close>).\<close>

fun split_comma :: "string \<Rightarrow> string list" where
  "split_comma [] = [] # []"
| "split_comma (c # cs) =
     (if c = CHR '','' then [] # split_comma cs
      else (case split_comma cs of p # ps \<Rightarrow> (c # p) # ps | [] \<Rightarrow> [c] # []))"

definition element :: "'a list \<Rightarrow> nat \<Rightarrow> 'a option" where
  "element xs i = (if i < length xs then Some (xs ! i) else None)"

text \<open>
  The \<open>onstop\<close> handler of recorder \<open>r\<close>: the chunks become one blob of type
  \<open>audio/webm\<close>, the completion callback gets its base64 text and its type (when the
  reader has finished; the blob does not change in between), and the stream's tracks,
  the current audio context and the current animation frame are released.
\<close>

definition onstop :: "nat \<Rightarrow> audio_recorder \<Rightarrow> audio_recorder" where
  "onstop r s =
     (case recorders s r of
        None \<Rightarrow> s
      | Some mr \<Rightarrow>
          (let blob = \<lparr>blob_data = concat (map blob_data (chunksRef s)), blob_type = ''audio/webm''\<rparr>;
               base64String = element (split_comma (readAsDataURL blob)) 1;
               s1 = s\<lparr>completed := completed s @ [(base64String, blob_type blob)]\<rparr>;
               s2 = stop_tracks (mr_stream mr) s1;
               s3 = (case audioContextRef s2 of None \<Rightarrow> s2 | Some ctx \<Rightarrow> close_context ctx s2)
           in if truthy (animationFrameRef s3)
              then cancelAnimationFrame (the (animationFrameRef s3)) s3
              else s3))"

text \<open>The cleanup of the effect, run when the component is discarded.\<close>

definition unmount :: "audio_recorder \<Rightarrow> audio_recorder" where
  "unmount s =
     (let s1 = (if truthy (timerRef s) then clearInterval (the (timerRef s)) s else s);
          s2 = (if truthy (animationFrameRef s1)
                then cancelAnimationFrame (the (animationFrameRef s1)) s1 else s1)
      in case audioContextRef s2 of None \<Rightarrow> s2 | Some ctx \<Rightarrow> close_context ctx s2)"

text \<open>Whether some track of a stream is still live (the microphone is held).\<close>

definition held :: "audio_recorder \<Rightarrow> nat \<Rightarrow> bool" where
  "held s stream = (case streams s stream of None \<Rightarrow> False | Some ts \<Rightarrow> True \<in> set ts)"

section \<open>Sample environments\<close>

text \<open>
  A provider that answers every request with the given response text, with a key
  configured; a well-formed response and the value it denotes; an environment with
  no key configured.
\<close>

definition provider_env :: "string option \<Rightarrow> service_env" where
  "provider_env body =
     \<lparr>API_KEY = Some ''key'', now = 1704067200000, timeZone = ''UTC'',
      generateContent = (\<lambda>req. Inr body)\<rparr>"

definition sample_response :: string where
  \<open>sample_response = ''{"reminder_content":"Call mom","scheduled_time":"2024-01-02T17:00:00Z","confidence_score":0.9}''\<close>

definition sample_data :: json where
  "sample_data =
     JObject [(map of_char ''reminder_content'', JString (map of_char ''Call mom'')),
              (map of_char ''scheduled_time'', JString (map of_char ''2024-01-02T17:00:00Z'')),
              (map of_char ''confidence_score'', JNumber ''0.9'')]"

definition env_no_key :: call_env where
  "env_no_key =
     \<lparr>service = \<lparr>API_KEY = None, now = 1704067200000, timeZone = ''UTC'',
                 generateContent = (\<lambda>req. Inr None)\<rparr>,
      randomUUID = None, Date_now = 1704067200500, new_Date = 1704067200500\<rparr>"

text \<open>
  A completed call whose provider answers with the sample response; \<open>uuid\<close> is what
  \<open>crypto.randomUUID\<close> gives (\<open>None\<close> on a platform without it) and \<open>t\<close> the clock reading.
  A text submission and an audio submission made while the status is \<open>IDLE\<close>.
\<close>

definition call_ok :: "string option \<Rightarrow> nat \<Rightarrow> call_env" where
  "call_ok uuid t =
     \<lparr>service = provider_env (Some sample_response), randomUUID = uuid, Date_now = t,
      new_Date = t\<rparr>"

definition text_call :: "string \<Rightarrow> pending_call" where
  "text_call t = \<lparr>pc_input = TextInput t, pc_status = IDLE, pc_text = True\<rparr>"

definition audio_call :: pending_call where
  "audio_call = \<lparr>pc_input = AudioInput ''AQID'' ''audio/webm'', pc_status = IDLE, pc_text = False\<rparr>"

text \<open>
  A session in which a reset scheduled by the first call fires while the second call is
  in flight, so that a third submission is made before the second has completed; the
  second and the third call then complete within the same millisecond, on a platform
  without \<open>crypto.randomUUID\<close>.
\<close>

definition race_events :: "event list" where
  "race_events =
     [Type ''first'', SubmitText, Elapse 100, Settled 0 (call_ok None 1704067200100),
      Elapse 1900, Type ''second'', SubmitText, Elapse 100,
      Type ''third'', SubmitText, Elapse 800,
      Settled 0 (call_ok None 1704067203000), Settled 0 (call_ok None 1704067203000)]"

text \<open>The same session up to the second submission.\<close>

definition newer_in_flight :: "event list" where
  "newer_in_flight =
     [Type ''first'', SubmitText, Elapse 100, Settled 0 (call_ok None 1704067200100),
      Elapse 1900, Type ''second'', SubmitText]"

text \<open>
  A timed session on a platform without \<open>crypto.randomUUID\<close>: a first call has
  completed, a second is in flight, and the clock has advanced since the first completed.
\<close>

definition two_calls :: "event list" where
  "two_calls =
     [Type ''first'', SubmitText, Elapse 100, Settled 0 (call_ok None 0),
      Type ''second'', SubmitText, Elapse 50]"

text \<open>The same on a platform with \<open>crypto.randomUUID\<close>, before the clock advances.\<close>

definition two_calls_uuid :: "event list" where
  "two_calls_uuid =
     [Type ''first'', SubmitText, Elapse 100,
      Settled 0 (call_ok (Some ''3b241101-e2bb-4255-8caf-4136c566a962'') 0),
      Type ''second'', SubmitText]"

text \<open>
  A recording on a platform whose recorder reports \<open>audio/mp4\<close>: started, one chunk of
  three bytes delivered, stopped; the recorder is the object 3, its stream the object 1.
\<close>

definition mp4_session :: audio_recorder where
  "mp4_session =
     stopRecording
       (ondataavailable \<lparr>blob_data = [1, 2, 3], blob_type = ''audio/mp4''\<rparr>
          (startRecording 1 ''audio/mp4'' mount))"

section \<open>Properties of the formatting functions\<close>

text \<open>The padded digits written out, and two instants and a clock reading as texts.\<close>

lemma pad_2: "pad 2 n = [digit_char (n div 10 mod 10), digit_char (n mod 10)]"
  by (simp add: numeral_2_eq_2)

lemma pad_3:
  "pad 3 n = [digit_char (n div 100 mod 10), digit_char (n div 10 mod 10), digit_char (n mod 10)]"
  by (simp add: numeral_3_eq_3 div_mult2_eq [symmetric])

lemma pad_4:
  "pad 4 n = [digit_char (n div 1000 mod 10), digit_char (n div 100 mod 10),
              digit_char (n div 10 mod 10), digit_char (n mod 10)]"
proof -
  have "pad 4 n = pad (Suc 3) n" by simp
  also have "\<dots> = pad 3 (n div 10) @ [digit_char (n mod 10)]" by (simp only: pad.simps)
  finally show ?thesis by (simp add: pad_3 div_mult2_eq [symmetric])
qed

lemma digit_chars:
  "digit_char 0 = CHR ''0''" "digit_char (Suc 0) = CHR ''1''" "digit_char 1 = CHR ''1''"
  "digit_char 2 = CHR ''2''" "digit_char 3 = CHR ''3''" "digit_char 4 = CHR ''4''"
  "digit_char 5 = CHR ''5''" "digit_char 6 = CHR ''6''" "digit_char 7 = CHR ''7''"
  "digit_char 8 = CHR ''8''" "digit_char 9 = CHR ''9''"
  by (simp_all add: digit_char_def char_of_def bit_iff_odd)

lemma toISOString_sample: "toISOString 1704067200500 = ''2024-01-01T00:00:00.500Z''"
  by (simp add: toISOString_def civil_from_days_def Let_def pad_2 pad_3 pad_4 digit_chars)

lemma toISOString_leap_day: "toISOString 1709251199999 = ''2024-02-29T23:59:59.999Z''"
  by (simp add: toISOString_def civil_from_days_def Let_def pad_2 pad_3 pad_4 digit_chars)

lemma nat_toString_sample: "nat_toString 1704067203000 = ''1704067203000''"
  by (simp add: nat_toString.simps digit_chars)

section \<open>Properties of the inference client\<close>

lemma JSON_parse_sample: "JSON_parse sample_response = Some sample_data"
  unfolding sample_response_def sample_data_def by code_simp

lemma JSON_parse_empty_object: "JSON_parse ''{}'' = Some (JObject [])"
  by code_simp

lemma JSON_parse_not_json: "JSON_parse ''I cannot help with that.'' = None"
  by code_simp

lemma sample_response_not_empty: "sample_response \<noteq> []"
  by (simp add: sample_response_def)

text \<open>
  C1, as stated, fails: the response text \<open>{}\<close> parses to an object that lacks all three
  fields, and \<open>parseInput\<close> returns it as the data.
\<close>

theorem parseInput_returns_incomplete_object:
  "missing_field (JObject [])
   \<and> parseInput (provider_env (Some ''{}'')) (TextInput ''hello'') = Inr (JObject [], ''hello'')"
  by (simp add: missing_field_def get_field_def parseInput_def provider_env_def
      JSON_parse_empty_object rawText_of_def)

text \<open>
  C1, amended: when the provider's response text is absent, empty or not a JSON text,
  \<open>parseInput\<close> fails with an error and returns no result. When a key is configured and
  the response text is a JSON text, \<open>parseInput\<close> returns the parsed value as the data,
  whatever its members are: the three fields are not checked.
\<close>

theorem parseInput_failures:
  "(generateContent env (build_request env input) = Inr body
      \<and> (body = None \<or> body = Some [] \<or> (\<exists>t. body = Some t \<and> JSON_parse t = None))
     \<longrightarrow> (\<exists>err. parseInput env input = Inl err))
   \<and> (API_KEY env = Some key \<and> key \<noteq> []
      \<and> generateContent env (build_request env input) = Inr (Some t) \<and> t \<noteq> []
      \<and> JSON_parse t = Some v
     \<longrightarrow> parseInput env input = Inr (v, rawText_of input))"
  by (auto simp: parseInput_def)

theorem parseInput_failures_witness:
  "(\<exists>err. parseInput (provider_env None) (TextInput ''hello'') = Inl err)
   \<and> (\<exists>err. parseInput (provider_env (Some [])) (TextInput ''hello'') = Inl err)
   \<and> (\<exists>err. parseInput (provider_env (Some ''I cannot help with that.'')) (TextInput ''hello'') = Inl err)
   \<and> parseInput (provider_env (Some sample_response)) (TextInput ''hello'') = Inr (sample_data, ''hello'')"
proof -
  let ?input = "TextInput ''hello''"
  have a: "\<exists>err. parseInput (provider_env None) ?input = Inl err"
    using parseInput_failures [where env = "provider_env None" and input = ?input and body = None,
        THEN conjunct1]
    by (simp add: provider_env_def)
  have b: "\<exists>err. parseInput (provider_env (Some [])) ?input = Inl err"
    using parseInput_failures [where env = "provider_env (Some [])" and input = ?input
        and body = "Some []", THEN conjunct1]
    by (simp add: provider_env_def)
  have c: "\<exists>err. parseInput (provider_env (Some ''I cannot help with that.'')) ?input = Inl err"
    using parseInput_failures [where env = "provider_env (Some ''I cannot help with that.'')"
        and input = ?input and body = "Some ''I cannot help with that.''", THEN conjunct1]
    by (simp add: provider_env_def JSON_parse_not_json)
  have d: "parseInput (provider_env (Some sample_response)) ?input = Inr (sample_data, ''hello'')"
    using parseInput_failures [where env = "provider_env (Some sample_response)" and input = ?input
        and key = "''key''" and t = sample_response and v = sample_data, THEN conjunct2]
      sample_response_not_empty
    by (simp add: provider_env_def JSON_parse_sample rawText_of_def)
  from a b c d show ?thesis by blast
qed

section \<open>Properties of the reminder card\<close>

text \<open>
  C9: a \<open>ReminderData\<close> whose \<open>scheduled_time\<close> is the empty string is treated as invalid
  whatever its \<open>confidence_score\<close>; one with \<open>confidence_score >= 0.5\<close> and a non-empty
  \<open>scheduled_time\<close> is treated as valid.
\<close>

theorem isValid_threshold:
  "(scheduled_time d = [] \<longrightarrow> \<not> isValid d)
   \<and> (number_ge (confidence_score d) (Finite 0.5) \<and> scheduled_time d \<noteq> [] \<longrightarrow> isValid d)"
  by (simp add: isValid_def)

theorem isValid_threshold_witness:
  "\<not> isValid \<lparr>reminder_content = ''Call mom'', scheduled_time = [], confidence_score = Finite 0.9\<rparr>
   \<and> isValid \<lparr>reminder_content = ''Call mom'', scheduled_time = ''2024-01-02T17:00:00Z'',
               confidence_score = Finite 0.5\<rparr>"
  using isValid_threshold [of "\<lparr>reminder_content = ''Call mom'', scheduled_time = [], confidence_score = Finite 0.9\<rparr>"]
    isValid_threshold [of "\<lparr>reminder_content = ''Call mom'', scheduled_time = ''2024-01-02T17:00:00Z'',
               confidence_score = Finite 0.5\<rparr>"]
  by simp

section \<open>Properties of the session orchestrator\<close>

lemma trim_empty_iff: "trim s = [] \<longleftrightarrow> (\<forall>c\<in>set s. is_js_space c)"
proof
  assume "trim s = []"
  then have "dropWhile is_js_space (rev (dropWhile is_js_space s)) = []"
    by (simp add: trim_def)
  then have a: "\<forall>c\<in>set (dropWhile is_js_space s). is_js_space c"
    by simp
  show "\<forall>c\<in>set s. is_js_space c"
  proof (cases "dropWhile is_js_space s")
    case Nil
    then show ?thesis by simp
  next
    case (Cons x xs)
    then have "\<not> is_js_space x" using hd_dropWhile [of is_js_space s] by simp
    moreover from Cons a have "is_js_space x" by simp
    ultimately show ?thesis by simp
  qed
next
  assume "\<forall>c\<in>set s. is_js_space c"
  then show "trim s = []" by (auto simp: trim_def dest: set_dropWhileD)
qed

text \<open>
  C6: a text submission whose input is empty or has only white space leaves the whole
  state as it is: no history item is created, no inference call is started (no call is
  added to the calls in flight), and the status keeps its value.
\<close>

theorem blank_text_rejected:
  assumes "\<forall>c\<in>set (textInput s). is_js_space c"
  shows "handleTextSubmit s = s"
  using assms by (simp add: handleTextSubmit_def trim_empty_iff)

theorem blank_text_rejected_witness:
  "is_js_space (CHR 0x20) \<and> is_js_space (CHR 0x09)
   \<and> handleTextSubmit (init_app\<lparr>textInput := [CHR 0x20, CHR 0x09, CHR 0x20]\<rparr>)
       = init_app\<lparr>textInput := [CHR 0x20, CHR 0x09, CHR 0x20]\<rparr>"
proof -
  have h: "\<forall>c\<in>set (textInput (init_app\<lparr>textInput := [CHR 0x20, CHR 0x09, CHR 0x20]\<rparr>)). is_js_space c"
    by (simp add: is_js_space_def)
  from blank_text_rejected [OF h] h show ?thesis by simp
qed

text \<open>
  C5: when the inference call of a submission throws, the status becomes \<open>ERROR\<close>, the
  error message is set, and the history is the one from before the submission; this
  holds for an uninterrupted call of \<open>processInput\<close> and for each of its two halves.
\<close>

theorem failed_call_keeps_history:
  assumes "parseInput (service env) (pc_input c) = Inl err"
  shows "status (processInput env c s) = ERROR
         \<and> errorMsg (processInput env c s) = Some ''Failed to process input. Please try again.''
         \<and> history (processInput env c s) = history s
         \<and> history (processInput_start c s) = history s
         \<and> status (processInput_finish env c s) = ERROR
         \<and> errorMsg (processInput_finish env c s) = Some ''Failed to process input. Please try again.''
         \<and> history (processInput_finish env c s) = history s"
  using assms by (simp add: processInput_def processInput_finish_def processInput_start_def)

theorem failed_call_keeps_history_witness:
  "parseInput (service env_no_key) (TextInput ''call mom'') = Inl (Error ''API Key not found in environment variables'')
   \<and> status (processInput env_no_key \<lparr>pc_input = TextInput ''call mom'', pc_status = IDLE, pc_text = True\<rparr> init_app) = ERROR
   \<and> history (processInput env_no_key \<lparr>pc_input = TextInput ''call mom'', pc_status = IDLE, pc_text = True\<rparr> init_app) = []"
proof -
  have h: "parseInput (service env_no_key) (pc_input \<lparr>pc_input = TextInput ''call mom'', pc_status = IDLE, pc_text = True\<rparr>)
           = Inl (Error ''API Key not found in environment variables'')"
    by (simp add: parseInput_def env_no_key_def)
  from failed_call_keeps_history [OF h, of init_app] h show ?thesis
    by (simp add: init_app_def)
qed

lemma parseInput_sample:
  "parseInput (provider_env (Some sample_response)) input = Inr (sample_data, rawText_of input)"
  by (simp add: parseInput_def provider_env_def JSON_parse_sample sample_response_not_empty)

lemma created_sample:
  "created (call_ok uuid t) c = Some (newItem (call_ok uuid t) sample_data (rawText_of (pc_input c)))"
  by (simp add: created_def call_ok_def parseInput_sample)

lemma finish_prepends:
  "created env c = Some item \<Longrightarrow> history (processInput_finish env c s) = item # history s"
  by (auto simp: created_def processInput_finish_def split: sum.splits)

lemma processInput_prepends:
  "created env c = Some item \<Longrightarrow> history (processInput env c s) = item # history s"
  by (simp add: processInput_def finish_prepends)

lemma submit_all_Cons: "submit_all ((env, c) # xs) s = submit_all xs (processInput env c s)"
  by (simp add: submit_all_def)

lemma submit_all_history:
  "list_all2 (\<lambda>(env, c) item. created env c = Some item) xs items
   \<Longrightarrow> history (submit_all xs s) = rev items @ history s"
proof (induction xs arbitrary: s items)
  case Nil
  then show ?case by (simp add: submit_all_def)
next
  case (Cons x xs)
  obtain env c where x: "x = (env, c)" by (cases x)
  from Cons.prems x obtain item rest where
    items: "items = item # rest" and cr: "created env c = Some item"
    and rest: "list_all2 (\<lambda>(env, c) item. created env c = Some item) xs rest"
    by (auto simp: list_all2_Cons1)
  from Cons.IH [OF rest] have
    "history (submit_all xs (processInput env c s)) = rev rest @ history (processInput env c s)" .
  with processInput_prepends [OF cr] items x show ?case
    by (simp add: submit_all_Cons)
qed

text \<open>
  C7: after a successful submission the item it created is at index 0 of the history
  (for an uninterrupted call and for the completion of a call in any state), and
  submissions made one after the other, all successful, leave the items they created in
  the reverse of the order of insertion, in front of the earlier history.
\<close>

theorem history_newest_first:
  "(created env c = Some item
      \<longrightarrow> history (processInput env c s) ! 0 = item \<and> history (processInput_finish env c s) ! 0 = item)
   \<and> (list_all2 (\<lambda>(env, c) item. created env c = Some item) xs items
      \<longrightarrow> history (submit_all xs s) = rev items @ history s)"
  by (simp add: submit_all_history processInput_prepends finish_prepends)

theorem history_newest_first_witness:
  "history (submit_all [(call_ok (Some ''id-1'') 1704067200500, text_call ''first''),
                        (call_ok (Some ''id-2'') 1704067203500, text_call ''second'')] init_app)
   = [newItem (call_ok (Some ''id-2'') 1704067203500) sample_data ''second'',
      newItem (call_ok (Some ''id-1'') 1704067200500) sample_data ''first'']
   \<and> history (processInput (call_ok (Some ''id-1'') 1704067200500) (text_call ''first'') init_app) ! 0
     = newItem (call_ok (Some ''id-1'') 1704067200500) sample_data ''first''"
proof -
  let ?e1 = "call_ok (Some ''id-1'') 1704067200500" and ?e2 = "call_ok (Some ''id-2'') 1704067203500"
  let ?i1 = "newItem ?e1 sample_data ''first''" and ?i2 = "newItem ?e2 sample_data ''second''"
  have c1: "created ?e1 (text_call ''first'') = Some ?i1"
    by (simp add: created_sample text_call_def rawText_of_def)
  have c2: "created ?e2 (text_call ''second'') = Some ?i2"
    by (simp add: created_sample text_call_def rawText_of_def)
  have l: "list_all2 (\<lambda>(env, c) item. created env c = Some item)
             [(?e1, text_call ''first''), (?e2, text_call ''second'')] [?i1, ?i2]"
    using c1 c2 by simp
  have a: "history (submit_all [(?e1, text_call ''first''), (?e2, text_call ''second'')] init_app)
           = rev [?i1, ?i2] @ history init_app"
    using history_newest_first [where xs = "[(?e1, text_call ''first''), (?e2, text_call ''second'')]"
        and items = "[?i1, ?i2]" and s = init_app, THEN conjunct2] l
    by blast
  have b: "history (processInput ?e1 (text_call ''first'') init_app) ! 0 = ?i1"
    using history_newest_first [where env = ?e1 and c = "text_call ''first''" and item = ?i1
        and s = init_app, THEN conjunct1] c1
    by blast
  from a b show ?thesis by (simp add: init_app_def)
qed

text \<open>
  C8: when \<open>parseInput\<close> succeeds, its \<open>rawText\<close> is the input itself for a text input
  and the fixed placeholder for an audio input, and the history item created from the
  call has this \<open>rawText\<close> as its \<open>originalInput\<close>.
\<close>

theorem rawText_and_originalInput:
  assumes "parseInput (service env) (pc_input c) = Inr (data, rawText)"
  shows "rawText = (case pc_input c of
                      TextInput t \<Rightarrow> t
                    | AudioInput d m \<Rightarrow> ''(Audio Transcription handled by AI)'')
         \<and> originalInput (hd (history (processInput_finish env c s))) = rawText
         \<and> originalInput (hd (history (processInput env c s))) = rawText"
proof -
  from assms have "rawText = rawText_of (pc_input c)"
    by (auto simp: parseInput_def split: if_splits sum.splits option.splits)
  moreover from assms have "created env c = Some (newItem env data rawText)"
    by (simp add: created_def)
  ultimately show ?thesis
    by (simp add: finish_prepends processInput_prepends rawText_of_def audio_placeholder_def
        newItem_def split: parse_input.splits)
qed

theorem rawText_and_originalInput_witness:
  "parseInput (service (call_ok None 1704067200500)) (pc_input (text_call ''call mom'')) = Inr (sample_data, ''call mom'')
   \<and> originalInput (hd (history (processInput_finish (call_ok None 1704067200500) (text_call ''call mom'') init_app)))
     = ''call mom''
   \<and> parseInput (service (call_ok None 1704067200500)) (pc_input audio_call)
     = Inr (sample_data, ''(Audio Transcription handled by AI)'')
   \<and> originalInput (hd (history (processInput_finish (call_ok None 1704067200500) audio_call init_app)))
     = ''(Audio Transcription handled by AI)''"
proof -
  let ?e = "call_ok None 1704067200500"
  have t: "parseInput (service ?e) (pc_input (text_call ''call mom'')) = Inr (sample_data, ''call mom'')"
    by (simp add: call_ok_def parseInput_sample text_call_def rawText_of_def)
  have a: "parseInput (service ?e) (pc_input audio_call)
           = Inr (sample_data, ''(Audio Transcription handled by AI)'')"
    by (simp add: call_ok_def parseInput_sample audio_call_def rawText_of_def audio_placeholder_def)
  from rawText_and_originalInput [OF t, of init_app] rawText_and_originalInput [OF a, of init_app] t a
  show ?thesis by simp
qed

lemmas app_eval =
  run_def step_def handleTextSubmit_def handleAudioComplete_def processInput_start_def
  resume_def processInput_finish_def elapse_def reset_callback_def init_app_def Let_def
  trim_def is_js_space_def call_ok_def parseInput_sample newItem_def generateId_def
  rawText_of_def

lemma fold_reset_fields:
  "timers (fold (\<lambda>(T, st). reset_callback st) due s) = timers s
   \<and> clock (fold (\<lambda>(T, st). reset_callback st) due s) = clock s
   \<and> pending (fold (\<lambda>(T, st). reset_callback st) due s) = pending s
   \<and> rendered (fold (\<lambda>(T, st). reset_callback st) due s) = rendered s
   \<and> history (fold (\<lambda>(T, st). reset_callback st) due s) = history s"
  by (induction due arbitrary: s) (auto simp: reset_callback_def)

lemma fold_reset_status:
  "status (fold (\<lambda>(T, st). reset_callback st) due s)
     = (if list_all (\<lambda>(T, st). st = RECORDING) due then status s else IDLE)"
proof (induction due arbitrary: s)
  case Nil
  then show ?case by simp
next
  case (Cons x due)
  obtain T st where x: "x = (T, st)" by (cases x)
  have "status (fold (\<lambda>(T, st). reset_callback st) (x # due) s)
        = status (fold (\<lambda>(T, st). reset_callback st) due (reset_callback st s))"
    by (simp add: x)
  also have "\<dots> = (if list_all (\<lambda>(T, st). st = RECORDING) due
                    then status (reset_callback st s) else IDLE)"
    by (rule Cons.IH)
  finally have e: "status (fold (\<lambda>(T, st). reset_callback st) (x # due) s)
        = (if list_all (\<lambda>(T, st). st = RECORDING) due
           then status (reset_callback st s) else IDLE)" .
  have r: "status (reset_callback st s) = (if st = RECORDING then status s else IDLE)"
    by (simp add: reset_callback_def)
  show ?case
    unfolding e r by (simp add: x)
qed

lemma elapse_timers:
  "timers (elapse d s) = filter (\<lambda>(T, st). \<not> T \<le> clock s + d) (timers s)"
  by (simp add: elapse_def Let_def fold_reset_fields)

lemma elapse_status:
  "status (elapse d s)
     = (if list_all (\<lambda>(T, st). st = RECORDING) (filter (\<lambda>(T, st). T \<le> clock s + d) (timers s))
        then status s else IDLE)"
  by (simp add: elapse_def Let_def fold_reset_status)

lemma elapse_fields:
  "pending (elapse d s) = pending s \<and> rendered (elapse d s) = rendered s
   \<and> clock (elapse d s) = clock s + d"
  by (simp add: elapse_def Let_def fold_reset_fields)

lemma no_recording_init: "no_recording init_app"
  by (simp add: no_recording_def init_app_def)

lemma no_recording_react:
  assumes "no_recording s"
  shows "status (react e s) \<noteq> RECORDING
         \<and> rendered (react e s) = rendered s
         \<and> list_all (\<lambda>c. pc_status c \<noteq> RECORDING) (pending (react e s))
         \<and> list_all (\<lambda>(T, st). st \<noteq> RECORDING) (timers (react e s))"
proof (cases e)
  case (Type t)
  with assms show ?thesis by (simp add: no_recording_def)
next
  case SubmitText
  with assms show ?thesis
    by (simp add: no_recording_def handleTextSubmit_def processInput_start_def)
next
  case (AudioComplete i b m)
  show ?thesis
  proof (cases "i < length (rendered s)")
    case False
    with assms AudioComplete show ?thesis by (simp add: no_recording_def)
  next
    case True
    then have "rendered s ! i \<in> set (rendered s)" by simp
    with assms have "rendered s ! i \<noteq> RECORDING"
      by (auto simp: no_recording_def list_all_iff)
    with assms AudioComplete True show ?thesis
      by (simp add: no_recording_def handleAudioComplete_def processInput_start_def)
  qed
next
  case (Settled i env)
  show ?thesis
  proof (cases "i < length (pending s)")
    case False
    with assms Settled show ?thesis by (simp add: no_recording_def resume_def)
  next
    case True
    from assms have p: "list_all (\<lambda>c. pc_status c \<noteq> RECORDING) (pending s)"
      by (simp add: no_recording_def)
    then have pi: "pc_status (pending s ! i) \<noteq> RECORDING"
      using True by (simp add: list_all_length)
    from p have
      "list_all (\<lambda>c. pc_status c \<noteq> RECORDING) (take i (pending s) @ drop (Suc i) (pending s))"
      by (auto simp: list_all_iff dest: in_set_takeD in_set_dropD)
    with assms Settled True pi show ?thesis
      by (auto simp: no_recording_def resume_def processInput_finish_def Let_def
          split: sum.splits)
  qed
next
  case (Elapse d)
  from assms have "list_all (\<lambda>(T, st). st \<noteq> RECORDING) (filter (\<lambda>(T, st). \<not> T \<le> clock s + d) (timers s))"
    by (auto simp: no_recording_def list_all_iff)
  with assms Elapse show ?thesis
    by (simp add: no_recording_def elapse_timers elapse_status elapse_fields)
qed

lemma no_recording_step: "no_recording s \<Longrightarrow> no_recording (step e s)"
  using no_recording_react [of s e]
  by (simp add: step_def Let_def no_recording_def)

lemma no_recording_fold: "no_recording s \<Longrightarrow> no_recording (fold step es s)"
  by (induction es arbitrary: s) (simp_all add: no_recording_step)

lemma no_recording_run: "no_recording (run es init_app)"
  by (simp add: run_def no_recording_fold no_recording_init)

lemma step_status: "status (step e s) = status (react e s)"
  by (simp add: step_def Let_def)

lemma step_timers: "timers (step e s) = timers (react e s)"
  by (simp add: step_def Let_def)

lemma step_clock: "clock (step e s) = clock (react e s)"
  by (simp add: step_def Let_def)

lemma due_timer_resets:
  assumes "no_recording s" and "(T, st) \<in> set (timers s)" and "T \<le> clock s + d"
  shows "status (elapse d s) = IDLE"
proof -
  from assms(1,2) have "st \<noteq> RECORDING"
    by (auto simp: no_recording_def list_all_iff)
  with assms(2,3) have
    "\<not> list_all (\<lambda>(T, st). st = RECORDING) (filter (\<lambda>(T, st). T \<le> clock s + d) (timers s))"
    by (auto simp: list_all_iff)
  then show ?thesis by (simp add: elapse_status)
qed

lemma settle_schedules:
  assumes "i < length (pending s)"
  shows "(status (resume env i s) = SUCCESS \<or> status (resume env i s) = ERROR)
         \<and> (clock s + 2000, pc_status (pending s ! i)) \<in> set (timers (resume env i s))"
  using assms
  by (auto simp: resume_def processInput_finish_def Let_def split: sum.splits)

lemma other_events_keep_timers:
  assumes "(T, st) \<in> set (timers s)" and "\<And>d. e \<noteq> Elapse d"
  shows "(T, st) \<in> set (timers (react e s)) \<and> clock (react e s) = clock s"
proof (cases e)
  case (Elapse d)
  with assms(2) [of d] show ?thesis by simp
next
  case (Settled i env)
  with assms(1) show ?thesis
    by (auto simp: resume_def processInput_finish_def Let_def split: sum.splits)
qed (use assms(1) in \<open>auto simp: handleTextSubmit_def handleAudioComplete_def processInput_start_def\<close>)

text \<open>
  C3: in every state the component can reach, a call that completes ends in \<open>SUCCESS\<close>
  or \<open>ERROR\<close> and schedules a reset 2000 ms ahead; a scheduled reset stays scheduled
  until it is due, whatever else happens; and when it is due the status becomes \<open>IDLE\<close>,
  whatever the status was (also \<open>PROCESSING\<close> for a newer call).
\<close>

theorem reset_scheduled_and_fires:
  assumes "s = run evs init_app"
  shows "(i < length (pending s)
            \<longrightarrow> (status (step (Settled i env) s) = SUCCESS \<or> status (step (Settled i env) s) = ERROR)
                \<and> (clock s + 2000, pc_status (pending s ! i)) \<in> set (timers (step (Settled i env) s)))
         \<and> ((T, st) \<in> set (timers s) \<and> T \<le> clock s + d \<longrightarrow> status (step (Elapse d) s) = IDLE)
         \<and> ((T, st) \<in> set (timers s) \<and> clock s + d < T
            \<longrightarrow> (T, st) \<in> set (timers (step (Elapse d) s)))
         \<and> ((T, st) \<in> set (timers s) \<and> (\<forall>d. e \<noteq> Elapse d)
            \<longrightarrow> (T, st) \<in> set (timers (step e s)) \<and> clock (step e s) = clock s)"
proof -
  from assms have inv: "no_recording s" by (simp add: no_recording_run)
  have a: "i < length (pending s)
            \<longrightarrow> (status (step (Settled i env) s) = SUCCESS \<or> status (step (Settled i env) s) = ERROR)
                \<and> (clock s + 2000, pc_status (pending s ! i)) \<in> set (timers (step (Settled i env) s))"
    using settle_schedules [of i s env] by (simp add: step_status step_timers)
  have b: "(T, st) \<in> set (timers s) \<and> T \<le> clock s + d \<longrightarrow> status (step (Elapse d) s) = IDLE"
    using due_timer_resets [OF inv, of T st d] by (simp add: step_status)
  have c: "(T, st) \<in> set (timers s) \<and> clock s + d < T
            \<longrightarrow> (T, st) \<in> set (timers (step (Elapse d) s))"
    by (auto simp: step_timers elapse_timers)
  have d: "(T, st) \<in> set (timers s) \<and> (\<forall>d. e \<noteq> Elapse d)
            \<longrightarrow> (T, st) \<in> set (timers (step e s)) \<and> clock (step e s) = clock s"
    using other_events_keep_timers [of T st s e] by (simp add: step_timers step_clock)
  from a b c d show ?thesis by blast
qed

lemma newer_in_flight_state:
  "status (run newer_in_flight init_app) = PROCESSING
   \<and> timers (run newer_in_flight init_app) = [(2100, IDLE)]
   \<and> clock (run newer_in_flight init_app) = 2000
   \<and> length (pending (run newer_in_flight init_app)) = 1"
  by (simp add: newer_in_flight_def app_eval)

theorem reset_scheduled_and_fires_witness:
  "status (run newer_in_flight init_app) = PROCESSING
   \<and> (2100, IDLE) \<in> set (timers (run newer_in_flight init_app))
   \<and> status (step (Elapse 100) (run newer_in_flight init_app)) = IDLE
   \<and> (status (step (Settled 0 (call_ok None 1704067203000)) (run newer_in_flight init_app)) = SUCCESS
      \<or> status (step (Settled 0 (call_ok None 1704067203000)) (run newer_in_flight init_app)) = ERROR)"
proof -
  let ?s = "run newer_in_flight init_app"
  have t: "(2100, IDLE) \<in> set (timers ?s)" and c: "2100 \<le> clock ?s + 100"
    and p: "0 < length (pending ?s)"
    by (simp_all add: newer_in_flight_state)
  have "status (step (Elapse 100) ?s) = IDLE"
    using reset_scheduled_and_fires [where s = ?s and evs = newer_in_flight and T = 2100
        and st = IDLE and d = 100, OF refl, THEN conjunct2, THEN conjunct1] t c
    by blast
  moreover have "status (step (Settled 0 (call_ok None 1704067203000)) ?s) = SUCCESS
      \<or> status (step (Settled 0 (call_ok None 1704067203000)) ?s) = ERROR"
    using reset_scheduled_and_fires [where s = ?s and evs = newer_in_flight and i = 0
        and env = "call_ok None 1704067203000", OF refl, THEN conjunct1] p
    by blast
  ultimately show ?thesis using t by (simp add: newer_in_flight_state)
qed

text \<open>
  C10, as stated, fails: on a platform without \<open>crypto.randomUUID\<close> the identifier is
  the clock reading, and two calls that complete within the same millisecond create two
  history items with the same \<open>id\<close>.
\<close>

theorem same_millisecond_same_id:
  "map item_id (history (run race_events init_app))
     = [nat_toString 1704067203000, nat_toString 1704067203000, nat_toString 1704067200100]
   \<and> map originalInput (history (run race_events init_app)) = [''third'', ''second'', ''first'']
   \<and> \<not> distinct (map item_id (history (run race_events init_app)))"
  by (simp add: race_events_def app_eval)

text \<open>The decimal text of a number determines the number.\<close>

lemma of_char_digit_char: "d < 10 \<Longrightarrow> (of_char (digit_char d) :: nat) = 48 + d"
  by (simp add: digit_char_def)

lemma nat_toString_value:
  "foldl (\<lambda>a c. 10 * a + (of_char c - 48)) 0 (nat_toString n) = n"
proof (induction n rule: nat_toString.induct)
  case (1 n)
  show ?case
  proof (cases "n < 10")
    case True
    then have "nat_toString n = [digit_char n]"
      by (subst nat_toString.simps) simp
    with True show ?thesis by (simp add: of_char_digit_char)
  next
    case False
    then have e: "nat_toString n = nat_toString (n div 10) @ [digit_char (n mod 10)]"
      by (subst nat_toString.simps) simp
    from False have "foldl (\<lambda>a c. 10 * a + (of_char c - 48)) 0 (nat_toString (n div 10)) = n div 10"
      by (rule "1.IH")
    then show ?thesis
      by (simp add: e of_char_digit_char)
  qed
qed

lemma nat_toString_inj: "nat_toString m = nat_toString n \<Longrightarrow> m = n"
  by (metis nat_toString_value)

text \<open>What each handler does to the clock, to the calls in flight and to the history.\<close>

lemma handler_clock:
  "clock (handleTextSubmit s) = clock s"
  "clock (handleAudioComplete st b m s) = clock s"
  "clock (resume env i s) = clock s"
  "clock (elapse d s) = clock s + d"
  by (auto simp: handleTextSubmit_def handleAudioComplete_def processInput_start_def
      resume_def processInput_finish_def Let_def elapse_fields split: sum.splits)

lemma handler_pending:
  "length (pending (handleTextSubmit s))
     = (if trim (textInput s) = [] then length (pending s) else Suc (length (pending s)))"
  "length (pending (handleAudioComplete st b m s)) = Suc (length (pending s))"
  "length (pending (resume env i s))
     = (if i < length (pending s) then length (pending s) - 1 else length (pending s))"
  "pending (elapse d s) = pending s"
  by (auto simp: handleTextSubmit_def handleAudioComplete_def processInput_start_def
      resume_def processInput_finish_def Let_def elapse_fields split: sum.splits)

lemma handler_history:
  "history (handleTextSubmit s) = history s"
  "history (handleAudioComplete st b m s) = history s"
  "history (resume env i s)
     = (if i < length (pending s)
        then (case created env (pending s ! i) of
                Some item \<Rightarrow> item # history s
              | None \<Rightarrow> history s)
        else history s)"
  "history (elapse d s) = history s"
  by (auto simp: handleTextSubmit_def handleAudioComplete_def processInput_start_def
      resume_def processInput_finish_def created_def Let_def elapse_def fold_reset_fields
      split: sum.splits)

lemma step_pending: "pending (step e s) = pending (react e s)"
  by (simp add: step_def Let_def)

lemma step_history: "history (step e s) = history (react e s)"
  by (simp add: step_def Let_def)

lemma timed_step_clock:
  "clock (fst (timed_step e (s, ts))) = (case e of Elapse d \<Rightarrow> clock s + d | _ \<Rightarrow> clock s)"
  by (cases e) (simp_all add: step_clock handler_clock)

lemma timed_step_history:
  "\<not> is_settle e \<Longrightarrow> history (fst (timed_step e (s, ts))) = history s"
  by (cases e) (simp_all add: step_history handler_history)

lemma timed_step_settled_history:
  assumes "i < length (pending s)"
  shows "history (fst (timed_step (Settled i env) (s, ts)))
         = (case created (on_clock env (ts ! i) s) (pending s ! i) of
              Some item \<Rightarrow> item # history s
            | None \<Rightarrow> history s)"
  using assms by (simp add: step_history handler_history)

lemma timed_inv_step:
  assumes "timed_inv (s, ts)"
  shows "timed_inv (timed_step e (s, ts))"
proof (cases e)
  case (Type t)
  with assms show ?thesis
    by (simp add: timed_inv_def step_pending step_clock handler_pending handler_clock)
next
  case SubmitText
  with assms show ?thesis
    by (simp add: timed_inv_def step_pending step_clock handler_pending handler_clock)
next
  case (AudioComplete i b m)
  with assms show ?thesis
    by (simp add: timed_inv_def step_pending step_clock handler_pending handler_clock)
next
  case (Settled i env)
  from assms have "list_all (\<lambda>t. t \<le> clock s) (take i ts @ drop (Suc i) ts)"
    by (auto simp: timed_inv_def list_all_iff dest: in_set_takeD in_set_dropD)
  with assms Settled show ?thesis
    by (auto simp: timed_inv_def step_pending step_clock handler_pending handler_clock)
next
  case (Elapse d)
  with assms show ?thesis
    by (auto simp: timed_inv_def step_pending step_clock handler_pending handler_clock list_all_iff)
qed

lemma timed_inv_fold: "timed_inv st \<Longrightarrow> timed_inv (fold timed_step es st)"
proof (induction es arbitrary: st)
  case Nil
  then show ?case by simp
next
  case (Cons e es)
  obtain s ts where st: "st = (s, ts)" by (cases st)
  from Cons.prems st have "timed_inv (timed_step e (s, ts))" by (simp add: timed_inv_step)
  with Cons.IH st show ?case by simp
qed

lemma timed_inv_run: "timed_inv (timed_run es t0)"
  unfolding timed_run_def
  by (rule timed_inv_fold) (simp add: timed_inv_def init_app_def)

lemma created_fields:
  "created env c = Some item
   \<Longrightarrow> item_id item = generateId env \<and> createdAt item = toISOString (new_Date env)"
  by (auto simp: created_def newItem_def split: sum.splits)

lemma generateId_on_clock:
  "generateId (on_clock env started s)
     = (case randomUUID env of Some uuid \<Rightarrow> uuid | None \<Rightarrow> nat_toString (clock s))"
  by (simp add: generateId_def on_clock_def split: option.splits)

lemma ids_on_clock_step:
  assumes "ids_on_clock s" and "uses_fallback e"
  shows "ids_on_clock (fst (timed_step e (s, ts)))"
proof (cases e)
  case (Settled i env)
  show ?thesis
  proof (cases "i < length (pending s)")
    case False
    with assms Settled show ?thesis
      by (simp add: ids_on_clock_def step_history step_clock handler_history handler_clock)
  next
    case True
    show ?thesis
    proof (cases "created (on_clock env (ts ! i) s) (pending s ! i)")
      case None
      with assms Settled True show ?thesis
        by (simp add: ids_on_clock_def step_history step_clock handler_history handler_clock)
    next
      case (Some item)
      from assms(2) Settled have "randomUUID env = None" by simp
      with created_fields [OF Some] have "item_id item = nat_toString (clock s)"
        by (simp add: generateId_on_clock)
      with assms(1) Settled True Some show ?thesis
        by (auto simp: ids_on_clock_def step_history step_clock handler_history handler_clock)
    qed
  qed
next
  case (Elapse d)
  have h: "history (fst (timed_step e (s, ts))) = history s"
    and c: "clock (fst (timed_step e (s, ts))) = clock s + d"
    using Elapse timed_step_history [of e s ts] timed_step_clock [of e s ts] by simp_all
  show ?thesis
    unfolding ids_on_clock_def h c
  proof
    fix x assume "x \<in> set (history s)"
    with assms(1) obtain t where "t \<le> clock s" and "item_id x = nat_toString t"
      by (auto simp: ids_on_clock_def)
    then show "\<exists>t\<le>clock s + d. item_id x = nat_toString t"
      by (intro exI [of _ t]) simp
  qed
qed (use assms(1) in \<open>simp_all add: ids_on_clock_def step_history step_clock handler_history
      handler_clock\<close>)

lemma ids_on_clock_fold:
  "ids_on_clock (fst st) \<Longrightarrow> list_all uses_fallback es
   \<Longrightarrow> ids_on_clock (fst (fold timed_step es st))"
proof (induction es arbitrary: st)
  case Nil
  then show ?case by simp
next
  case (Cons e es)
  obtain s ts where st: "st = (s, ts)" by (cases st)
  from Cons.prems st have "ids_on_clock (fst (timed_step e (s, ts)))"
    by (simp add: ids_on_clock_step)
  with Cons.IH [of "timed_step e (s, ts)"] Cons.prems(2) st show ?case by simp
qed

lemma ids_on_clock_run: "list_all uses_fallback es \<Longrightarrow> ids_on_clock (fst (timed_run es t0))"
  unfolding timed_run_def
  by (rule ids_on_clock_fold) (simp_all add: ids_on_clock_def init_app_def)

lemma ids_before_elapse:
  assumes "ids_on_clock s" and "0 < d"
  shows "ids_before (fst (timed_step (Elapse d) (s, ts)))"
proof -
  have h: "history (fst (timed_step (Elapse d) (s, ts))) = history s"
    and c: "clock (fst (timed_step (Elapse d) (s, ts))) = clock s + d"
    using timed_step_history [of "Elapse d" s ts] timed_step_clock [of "Elapse d" s ts]
    by simp_all
  show ?thesis
    unfolding ids_before_def h c
  proof
    fix x assume "x \<in> set (history s)"
    with assms(1) obtain t where "t \<le> clock s" and "item_id x = nat_toString t"
      by (auto simp: ids_on_clock_def)
    with assms(2) show "\<exists>t<clock s + d. item_id x = nat_toString t"
      by (intro exI [of _ t]) simp
  qed
qed

lemma ids_before_step:
  assumes "ids_before s" and "\<not> is_settle e"
  shows "ids_before (fst (timed_step e (s, ts)))"
proof -
  have c: "clock s \<le> clock (fst (timed_step e (s, ts)))"
    by (simp add: timed_step_clock split: event.splits)
  have h: "history (fst (timed_step e (s, ts))) = history s"
    using assms(2) by (rule timed_step_history)
  show ?thesis
    unfolding ids_before_def h
  proof
    fix x assume "x \<in> set (history s)"
    with assms(1) obtain t where "t < clock s" and "item_id x = nat_toString t"
      by (auto simp: ids_before_def)
    with c show "\<exists>t<clock (fst (timed_step e (s, ts))). item_id x = nat_toString t"
      by (intro exI [of _ t]) simp
  qed
qed

lemma ids_before_fold:
  "ids_before (fst st) \<Longrightarrow> list_all (\<lambda>e. \<not> is_settle e) es
   \<Longrightarrow> ids_before (fst (fold timed_step es st))"
proof (induction es arbitrary: st)
  case Nil
  then show ?case by simp
next
  case (Cons e es)
  obtain s ts where st: "st = (s, ts)" by (cases st)
  from Cons.prems st have "ids_before (fst (timed_step e (s, ts)))"
    by (simp add: ids_before_step)
  with Cons.IH [of "timed_step e (s, ts)"] Cons.prems(2) st show ?case by simp
qed

lemma ids_before_fresh: "ids_before s \<Longrightarrow> nat_toString (clock s) \<notin> set (map item_id (history s))"
proof
  assume b: "ids_before s" and "nat_toString (clock s) \<in> set (map item_id (history s))"
  then obtain x where x: "x \<in> set (history s)" and e: "item_id x = nat_toString (clock s)"
    by auto
  from b x obtain t where "t < clock s" and "item_id x = nat_toString t"
    by (auto simp: ids_before_def)
  with e have "t = clock s" by (simp add: nat_toString_inj)
  with \<open>t < clock s\<close> show False by simp
qed

lemma ids_from_uuids_step:
  assumes "uses_uuid e"
  shows "set (map item_id (history (fst (timed_step e (s, ts)))))
         \<subseteq> set (map item_id (history s)) \<union> set (uuid_of e)"
proof (cases e)
  case (Settled i env)
  from assms Settled obtain uuid where u: "randomUUID env = Some uuid" by auto
  show ?thesis
  proof (cases "i < length (pending s)")
    case False
    with Settled show ?thesis
      by (simp add: step_history handler_history)
  next
    case True
    show ?thesis
    proof (cases "created (on_clock env (ts ! i) s) (pending s ! i)")
      case None
      with Settled True show ?thesis
        by (auto simp: step_history handler_history)
    next
      case (Some item)
      from created_fields [OF Some] u have "item_id item = uuid"
        by (simp add: generateId_on_clock)
      with Settled True Some u show ?thesis
        by (auto simp: step_history handler_history)
    qed
  qed
qed (simp_all add: step_history handler_history)

lemma ids_from_uuids_fold:
  "list_all uses_uuid es
   \<Longrightarrow> set (map item_id (history (fst (fold timed_step es st))))
       \<subseteq> set (map item_id (history (fst st))) \<union> set (uuids es)"
proof (induction es arbitrary: st)
  case Nil
  then show ?case by simp
next
  case (Cons e es)
  obtain s ts where st: "st = (s, ts)" by (cases st)
  from Cons.prems have e: "uses_uuid e" and es: "list_all uses_uuid es" by simp_all
  from Cons.IH [OF es, of "timed_step e (s, ts)"] ids_from_uuids_step [OF e, of s ts] st
  show ?case
    by (auto simp: uuids_def)
qed

lemma ids_from_uuids_run:
  "list_all uses_uuid es \<Longrightarrow> set (map item_id (history (fst (timed_run es t0)))) \<subseteq> set (uuids es)"
  using ids_from_uuids_fold [of es "(init_app\<lparr>clock := t0\<rparr>, [])"]
  by (simp add: timed_run_def init_app_def)

text \<open>
  C10, amended: in a timed session the item a successful call creates becomes the head
  of the history; its \<open>id\<close> is what \<open>crypto.randomUUID\<close> returns or, on a platform without
  it, the decimal text of the clock reading at creation; its \<open>createdAt\<close> is the ISO text
  of that reading, which is no earlier than the reading taken when the call started. On
  a platform without \<open>crypto.randomUUID\<close> the \<open>id\<close> differs from every \<open>id\<close> of the history
  whenever the clock has advanced since the last call completed. On a platform with
  \<open>crypto.randomUUID\<close> it differs from every \<open>id\<close> of the history whenever the generator
  has not returned the value before; the code itself checks nothing.
\<close>

theorem item_id_and_createdAt:
  assumes "timed_run evs t0 = (s, ts)" and "i < length (pending s)"
    and "created (on_clock env (ts ! i) s) (pending s ! i) = Some item"
  shows "history (fst (timed_step (Settled i env) (s, ts))) = item # history s
         \<and> item_id item = (case randomUUID env of Some uuid \<Rightarrow> uuid | None \<Rightarrow> nat_toString (clock s))
         \<and> createdAt item = toISOString (clock s)
         \<and> length ts = length (pending s)
         \<and> now (service (on_clock env (ts ! i) s)) = ts ! i
         \<and> ts ! i \<le> clock s
         \<and> (randomUUID env = None \<and> list_all uses_fallback evs
              \<and> evs = before @ Elapse d # after \<and> 0 < d
              \<and> list_all (\<lambda>e. \<not> is_settle e) after
            \<longrightarrow> item_id item \<notin> set (map item_id (history s)))
         \<and> (randomUUID env = Some uuid \<and> list_all uses_uuid evs \<and> uuid \<notin> set (uuids evs)
            \<longrightarrow> item_id item \<notin> set (map item_id (history s)))"
proof -
  have h: "history (fst (timed_step (Settled i env) (s, ts))) = item # history s"
    using timed_step_settled_history [OF assms(2), of env ts] assms(3) by simp
  have f: "item_id item = (case randomUUID env of Some uuid \<Rightarrow> uuid | None \<Rightarrow> nat_toString (clock s))"
    using created_fields [OF assms(3)] by (simp add: generateId_on_clock)
  have c: "createdAt item = toISOString (clock s)"
    using created_fields [OF assms(3)] by (simp add: on_clock_def)
  from timed_inv_run [of evs t0] assms(1) have
    l: "length ts = length (pending s)" and a: "list_all (\<lambda>t. t \<le> clock s) ts"
    by (simp_all add: timed_inv_def)
  from l a assms(2) have le: "ts ! i \<le> clock s"
    by (simp add: list_all_length)
  have n: "now (service (on_clock env (ts ! i) s)) = ts ! i"
    by (simp add: on_clock_def)
  have u: "item_id item \<notin> set (map item_id (history s))"
    if "randomUUID env = None" and "list_all uses_fallback evs"
      and "evs = before @ Elapse d # after" and "0 < d"
      and "list_all (\<lambda>e. \<not> is_settle e) after"
  proof -
    obtain s1 ts1 where s1: "timed_run before t0 = (s1, ts1)"
      by (cases "timed_run before t0")
    from that(2,3) have "list_all uses_fallback before" by simp
    from ids_on_clock_run [OF this, of t0] s1 have "ids_on_clock s1" by simp
    from ids_before_elapse [OF this that(4)]
    have "ids_before (fst (timed_step (Elapse d) (s1, ts1)))" .
    from ids_before_fold [OF this that(5)]
    have "ids_before (fst (fold timed_step after (timed_step (Elapse d) (s1, ts1))))" .
    moreover have "fold timed_step after (timed_step (Elapse d) (s1, ts1)) = timed_run evs t0"
      using s1 that(3) by (simp add: timed_run_def)
    ultimately have "ids_before s" using assms(1) by simp
    from ids_before_fresh [OF this] f that(1) show ?thesis by simp
  qed
  have v: "item_id item \<notin> set (map item_id (history s))"
    if "randomUUID env = Some uuid" and "list_all uses_uuid evs" and "uuid \<notin> set (uuids evs)"
  proof -
    from ids_from_uuids_run [OF that(2), of t0] assms(1)
    have "set (map item_id (history s)) \<subseteq> set (uuids evs)" by simp
    with that(3) have "uuid \<notin> set (map item_id (history s))" by blast
    with f that(1) show ?thesis by simp
  qed
  from h f c l n le u v show ?thesis by blast
qed

lemma parseInput_sample_at:
  "parseInput (provider_env (Some sample_response)\<lparr>now := t\<rparr>) input
     = Inr (sample_data, rawText_of input)"
  by (simp add: parseInput_def provider_env_def build_request_def contents_def contextPrompt_def
      JSON_parse_sample sample_response_not_empty)

lemmas timed_eval = timed_run_def on_clock_def parseInput_sample_at app_eval

lemma two_calls_state:
  "snd (timed_run two_calls 1704067200000) = [1704067200100]"
  "clock (fst (timed_run two_calls 1704067200000)) = 1704067200150"
  "pending (fst (timed_run two_calls 1704067200000))
     = [\<lparr>pc_input = TextInput ''second'', pc_status = SUCCESS, pc_text = True\<rparr>]"
  "map item_id (history (fst (timed_run two_calls 1704067200000))) = [nat_toString 1704067200100]"
  by (simp_all add: two_calls_def timed_eval)

lemma two_calls_uuid_state:
  "pending (fst (timed_run two_calls_uuid 1704067200000))
     = [\<lparr>pc_input = TextInput ''second'', pc_status = SUCCESS, pc_text = True\<rparr>]"
  "map item_id (history (fst (timed_run two_calls_uuid 1704067200000)))
     = [''3b241101-e2bb-4255-8caf-4136c566a962'']"
  by (simp_all add: two_calls_uuid_def timed_eval)

theorem item_id_and_createdAt_witness:
  "map item_id (history (fst (timed_step (Settled 0 (call_ok None 0))
                                (timed_run two_calls 1704067200000))))
     = [nat_toString 1704067200150, nat_toString 1704067200100]
   \<and> nat_toString 1704067200150 \<notin> set [nat_toString 1704067200100]
   \<and> map createdAt (history (fst (timed_step (Settled 0 (call_ok None 0))
                                    (timed_run two_calls 1704067200000))))
     = [toISOString 1704067200150, toISOString 1704067200100]
   \<and> snd (timed_run two_calls 1704067200000) ! 0 = 1704067200100
   \<and> (1704067200100 :: nat) \<le> 1704067200150
   \<and> map item_id (history (fst (timed_step (Settled 0 (call_ok (Some ''9b2f6b0e-5d0a-4c3e-8f4e-0c1d2e3f4a5b'') 0))
                                    (timed_run two_calls_uuid 1704067200000))))
     = [''9b2f6b0e-5d0a-4c3e-8f4e-0c1d2e3f4a5b'', ''3b241101-e2bb-4255-8caf-4136c566a962'']
   \<and> ''9b2f6b0e-5d0a-4c3e-8f4e-0c1d2e3f4a5b'' \<notin> set (uuids two_calls_uuid)"
proof -
  let ?st = "timed_run two_calls 1704067200000"
  let ?s = "fst ?st" and ?ts = "snd ?st"
  let ?env = "call_ok None 0"
  let ?item = "newItem (on_clock ?env (?ts ! 0) ?s) sample_data ''second''"
  have r: "timed_run two_calls 1704067200000 = (?s, ?ts)" by simp
  have p: "0 < length (pending ?s)" by (simp add: two_calls_state)
  have c: "created (on_clock ?env (?ts ! 0) ?s) (pending ?s ! 0) = Some ?item"
    by (simp add: two_calls_state created_def on_clock_def call_ok_def parseInput_sample_at
        rawText_of_def)
  have shape: "two_calls = [Type ''first'', SubmitText, Elapse 100, Settled 0 (call_ok None 0),
      Type ''second'', SubmitText] @ Elapse 50 # []"
    by (simp add: two_calls_def)
  have fb: "list_all uses_fallback two_calls"
    by (simp add: two_calls_def call_ok_def)
  note t = item_id_and_createdAt [OF r p c, where d = 50 and after = "[]"
      and before = "[Type ''first'', SubmitText, Elapse 100, Settled 0 (call_ok None 0),
      Type ''second'', SubmitText]"]
  have old: "map createdAt (history ?s) = [toISOString 1704067200100]"
    by (simp add: two_calls_def timed_eval)
  have ante: "randomUUID ?env = None \<and> list_all uses_fallback two_calls
      \<and> two_calls = [Type ''first'', SubmitText, Elapse 100, Settled 0 (call_ok None 0),
          Type ''second'', SubmitText] @ Elapse 50 # []
      \<and> (0 :: nat) < 50 \<and> list_all (\<lambda>e. \<not> is_settle e) []"
    using shape fb by (simp add: call_ok_def)
  from t ante have fresh: "item_id ?item \<notin> set (map item_id (history ?s))"
    by blast
  have hist: "history (fst (timed_step (Settled 0 ?env) ?st)) = ?item # history ?s"
    using t [THEN conjunct1] by (simp only: prod.collapse)
  from t have ident: "item_id ?item = nat_toString (clock ?s)"
    and made: "createdAt ?item = toISOString (clock ?s)"
    by (simp_all add: call_ok_def)
  from t have le: "?ts ! 0 \<le> clock ?s" by blast
  from fresh ident have a: "nat_toString 1704067200150 \<notin> set [nat_toString 1704067200100]"
    by (simp add: two_calls_state)
  from le have b: "(1704067200100 :: nat) \<le> 1704067200150"
    by (simp only: two_calls_state nth_Cons_0)
  have c: "map item_id (history (fst (timed_step (Settled 0 ?env) ?st)))
           = [nat_toString 1704067200150, nat_toString 1704067200100]"
    using hist ident by (simp add: two_calls_state)
  have d: "map createdAt (history (fst (timed_step (Settled 0 ?env) ?st)))
           = [toISOString 1704067200150, toISOString 1704067200100]"
    using hist made old by (simp add: two_calls_state)
  have e: "?ts ! 0 = 1704067200100"
    by (simp add: two_calls_state)
  let ?su = "timed_run two_calls_uuid 1704067200000"
  let ?envu = "call_ok (Some ''9b2f6b0e-5d0a-4c3e-8f4e-0c1d2e3f4a5b'') 0"
  let ?itemu = "newItem (on_clock ?envu (snd ?su ! 0) (fst ?su)) sample_data ''second''"
  have ru: "timed_run two_calls_uuid 1704067200000 = (fst ?su, snd ?su)" by simp
  have pu: "0 < length (pending (fst ?su))" by (simp add: two_calls_uuid_state)
  have cu: "created (on_clock ?envu (snd ?su ! 0) (fst ?su)) (pending (fst ?su) ! 0) = Some ?itemu"
    by (simp add: two_calls_uuid_state created_def on_clock_def call_ok_def parseInput_sample_at
        rawText_of_def)
  note tu = item_id_and_createdAt [OF ru pu cu,
      where uuid = "''9b2f6b0e-5d0a-4c3e-8f4e-0c1d2e3f4a5b''"]
  have nu: "''9b2f6b0e-5d0a-4c3e-8f4e-0c1d2e3f4a5b'' \<notin> set (uuids two_calls_uuid)"
    by (simp add: two_calls_uuid_def uuids_def call_ok_def)
  have anteu: "randomUUID ?envu = Some ''9b2f6b0e-5d0a-4c3e-8f4e-0c1d2e3f4a5b''
      \<and> list_all uses_uuid two_calls_uuid"
    by (simp add: two_calls_uuid_def call_ok_def)
  from tu anteu nu have freshu: "item_id ?itemu \<notin> set (map item_id (history (fst ?su)))"
    by blast
  have histu: "history (fst (timed_step (Settled 0 ?envu) ?su)) = ?itemu # history (fst ?su)"
    using tu [THEN conjunct1] by (simp only: prod.collapse)
  from tu have identu: "item_id ?itemu = ''9b2f6b0e-5d0a-4c3e-8f4e-0c1d2e3f4a5b''"
    by (simp add: call_ok_def)
  have f: "map item_id (history (fst (timed_step (Settled 0 ?envu) ?su)))
           = [''9b2f6b0e-5d0a-4c3e-8f4e-0c1d2e3f4a5b'', ''3b241101-e2bb-4255-8caf-4136c566a962'']"
    using histu identu freshu by (simp add: two_calls_uuid_state)
  from a b c d e f nu show ?thesis by blast
qed

text \<open>
  A step of a timed session is a step of the component, and in the timed session of
  the counterexample the two calls that complete at the same reading share their \<open>id\<close>.
\<close>

lemma timed_step_is_step: "\<exists>e'. fst (timed_step e (s, ts)) = step e' s"
  by (cases e) auto

lemma timed_same_millisecond:
  "map item_id (history (fst (timed_run race_events 1704067200000)))
     = [nat_toString 1704067202900, nat_toString 1704067202900, nat_toString 1704067200100]"
  by (simp add: race_events_def timed_eval)

section \<open>Properties of the audio capture unit\<close>

lemmas recorder_eval =
  onstop_def stopRecording_def ondataavailable_def startRecording_def mount_def
  drawVisualizer_def setIsRecording_def truthy_def clearInterval_def close_context_def
  stop_tracks_def cancelAnimationFrame_def unmount_def held_def Let_def element_def
  readAsDataURL_def b64_char_def

lemma completed_close_context [simp]: "completed (close_context ctx s) = completed s"
  by (simp add: close_context_def split: option.splits)

lemma completed_stop_tracks [simp]: "completed (stop_tracks st s) = completed s"
  by (simp add: stop_tracks_def split: option.splits)

lemma completed_cancel [simp]: "completed (cancelAnimationFrame i s) = completed s"
  by (simp add: cancelAnimationFrame_def)

lemma streams_close_context [simp]: "streams (close_context ctx s) = streams s"
  by (simp add: close_context_def split: option.splits)

lemma streams_cancel [simp]: "streams (cancelAnimationFrame i s) = streams s"
  by (simp add: cancelAnimationFrame_def)

lemma onstop_completed:
  assumes "recorders s r = Some mr"
  shows "completed (onstop r s)
         = completed s @
           [(element (split_comma (readAsDataURL
               \<lparr>blob_data = concat (map blob_data (chunksRef s)), blob_type = ''audio/webm''\<rparr>)) 1,
             ''audio/webm'')]"
  using assms by (simp add: onstop_def Let_def split: option.splits)

lemma onstop_releases_tracks:
  assumes "recorders s r = Some mr"
  shows "\<not> held (onstop r s) (mr_stream mr)"
  using assms
  by (auto simp: onstop_def Let_def held_def stop_tracks_def split: option.splits)

text \<open>
  C2, as stated, fails: the recorder reports \<open>audio/mp4\<close> and the completion callback
  is given \<open>audio/webm\<close>.
\<close>

theorem completion_type_not_the_recorders:
  "map_option mr_mimeType (recorders mp4_session 3) = Some ''audio/mp4''
   \<and> completed (onstop 3 mp4_session) = [(Some ''AQID'', ''audio/webm'')]"
  by (simp add: mp4_session_def recorder_eval)

text \<open>
  C2, amended: for every completed recording the completion callback is called once
  more, and the MIME type it is given is \<open>audio/webm\<close>, the type the capture unit gives
  the blob it assembles, whatever type the recorder reported.
\<close>

theorem completion_type_is_webm:
  assumes "recorders s r = Some mr"
  shows "length (completed (onstop r s)) = Suc (length (completed s))
         \<and> take (length (completed s)) (completed (onstop r s)) = completed s
         \<and> snd (last (completed (onstop r s))) = ''audio/webm''"
  by (simp add: onstop_completed [OF assms])

theorem completion_type_is_webm_witness:
  "recorders mp4_session 3 = Some \<lparr>mr_stream = 1, mr_mimeType = ''audio/mp4'', mr_recording = False\<rparr>
   \<and> length (completed (onstop 3 mp4_session)) = 1
   \<and> snd (last (completed (onstop 3 mp4_session))) = ''audio/webm''"
proof -
  have r: "recorders mp4_session 3
           = Some \<lparr>mr_stream = 1, mr_mimeType = ''audio/mp4'', mr_recording = False\<rparr>"
    by (simp add: mp4_session_def recorder_eval)
  have c: "completed mp4_session = []"
    by (simp add: mp4_session_def recorder_eval)
  from completion_type_is_webm [OF r] r c show ?thesis by simp
qed

text \<open>
  C4 fails on the code when the component is discarded while recording: the cleanup
  clears the interval and closes the audio context, but the track of the stream stays
  live and the recorder keeps recording.
\<close>

theorem unmount_leaves_microphone_held:
  "held (unmount (startRecording 1 ''audio/webm'' mount)) 1
   \<and> streams (unmount (startRecording 1 ''audio/webm'' mount)) 1 = Some [True]
   \<and> audio_contexts (unmount (startRecording 1 ''audio/webm'' mount)) 2 = Some False
   \<and> intervals (unmount (startRecording 1 ''audio/webm'' mount)) = []
   \<and> recorders (unmount (startRecording 1 ''audio/webm'' mount)) 3
     = Some \<lparr>mr_stream = 1, mr_mimeType = ''audio/webm'', mr_recording = True\<rparr>"
  by (simp add: recorder_eval)

text \<open>In a session with a single recording, stopping it releases all three.\<close>

lemma stop_releases_microphone:
  "\<not> held (onstop 3 (stopRecording (startRecording 1 ''audio/webm'' mount))) 1
   \<and> audio_contexts (onstop 3 (stopRecording (startRecording 1 ''audio/webm'' mount))) 2 = Some False
   \<and> frames (onstop 3 (stopRecording (startRecording 1 ''audio/webm'' mount))) = []"
  by (simp add: recorder_eval)

text \<open>
  When recording is started twice before it is stopped, the refs hold the second
  recording only: stopping releases the second stream, context and frame, and the first
  stream stays live, its context open and its interval running.
\<close>

lemma double_start_then_stop_leaks:
  "held (onstop 8 (stopRecording (startRecording 1 ''audio/webm'' (startRecording 1 ''audio/webm'' mount)))) 1
   \<and> audio_contexts (onstop 8 (stopRecording (startRecording 1 ''audio/webm''
        (startRecording 1 ''audio/webm'' mount)))) 2 = Some True
   \<and> intervals (onstop 8 (stopRecording (startRecording 1 ''audio/webm''
        (startRecording 1 ''audio/webm'' mount)))) = [4]
   \<and> \<not> held (onstop 8 (stopRecording (startRecording 1 ''audio/webm''
        (startRecording 1 ''audio/webm'' mount)))) 5
   \<and> frames (onstop 8 (stopRecording (startRecording 1 ''audio/webm''
        (startRecording 1 ''audio/webm'' mount)))) = []"
  by (simp add: recorder_eval draw_def)

end
